theory Spec2Isabelle
  imports
    Main
    "HOL-Library.Multiset"
    "HOL-Library.Sublist"
    "HOL-Library.List_Lexorder"
    "HOL-Library.Product_Lexorder"
begin

section \<open>Python text\<close>

text \<open>
  The patch scripts open every file with \<^verbatim>\<open>encoding='utf-8'\<close>, so a buffer is a Python
  \<^verbatim>\<open>str\<close>: a sequence of Unicode code points. A code point is a natural number here and a
  \<^verbatim>\<open>str\<close> a list of them; offsets, slices and lengths count code points, as Python's do.
  Python orders strings code point by code point, which is the lexicographic order on
  these lists. File paths occur in the scripts as ASCII literals only and stay
  \<^typ>\<open>string\<close>.
\<close>

type_synonym pystr = "nat list"

type_synonym path = string

abbreviation str :: "string \<Rightarrow> pystr" where
  "str s \<equiv> map of_char s"

definition NL :: nat where
  "NL = 10"

definition TODO :: pystr where
  "TODO = [84, 79, 68, 79]"

text \<open>\<^verbatim>\<open>str.isspace\<close> on one code point; the regular expression class \<^verbatim>\<open>\s\<close> of a \<^verbatim>\<open>str\<close>
  pattern is the same set.\<close>

definition py_isspace :: "nat \<Rightarrow> bool" where
  "py_isspace c \<longleftrightarrow>
     (9 \<le> c \<and> c \<le> 13) \<or> (28 \<le> c \<and> c \<le> 32) \<or> c = 133 \<or> c = 160 \<or> c = 5760 \<or>
     (8192 \<le> c \<and> c \<le> 8202) \<or> c = 8232 \<or> c = 8233 \<or> c = 8239 \<or> c = 8287 \<or> c = 12288"

text \<open>\<^verbatim>\<open>s.strip()\<close>: whitespace removed at both ends.\<close>

definition py_strip :: "pystr \<Rightarrow> pystr" where
  "py_strip s = rev (dropWhile py_isspace (rev (dropWhile py_isspace s)))"

text \<open>\<^verbatim>\<open>sub in s\<close>: \<^verbatim>\<open>sub\<close> occurs in \<^verbatim>\<open>s\<close> as a contiguous substring.\<close>

fun py_in :: "'a list \<Rightarrow> 'a list \<Rightarrow> bool" where
  "py_in sub [] = (sub = [])"
| "py_in sub (c # cs) = (prefix sub (c # cs) \<or> py_in sub cs)"

text \<open>\<^verbatim>\<open>s.replace(old, new)\<close>: one scan from the left; at an occurrence of \<^verbatim>\<open>old\<close> the
  replacement is emitted and the scan resumes behind the occurrence. For the empty
  \<^verbatim>\<open>old\<close> Python puts \<^verbatim>\<open>new\<close> before every character and at the end.\<close>

function py_replace_scan :: "'a list \<Rightarrow> 'a list \<Rightarrow> 'a list \<Rightarrow> 'a list" where
  "py_replace_scan old new [] = []"
| "py_replace_scan old new (c # cs) =
     (if old \<noteq> [] \<and> prefix old (c # cs)
      then new @ py_replace_scan old new (drop (length old) (c # cs))
      else c # py_replace_scan old new cs)"
  by pat_completeness auto
termination
  by (relation "measure (\<lambda>(old, new, s). length s)") (auto simp: neq_Nil_conv)

definition py_replace :: "'a list \<Rightarrow> 'a list \<Rightarrow> 'a list \<Rightarrow> 'a list" where
  "py_replace old new s =
     (if old = [] then new @ concat (map (\<lambda>c. c # new) s) else py_replace_scan old new s)"

text \<open>\<^verbatim>\<open>s.count(sub)\<close> for a non-empty \<^verbatim>\<open>sub\<close>: the occurrences the same scan meets.\<close>

function py_count :: "'a list \<Rightarrow> 'a list \<Rightarrow> nat" where
  "py_count sub [] = 0"
| "py_count sub (c # cs) =
     (if sub \<noteq> [] \<and> prefix sub (c # cs)
      then Suc (py_count sub (drop (length sub) (c # cs)))
      else py_count sub cs)"
  by pat_completeness auto
termination
  by (relation "measure (\<lambda>(sub, s). length s)") (auto simp: neq_Nil_conv)

text \<open>\<^verbatim>\<open>f.readlines()\<close> in text mode: the text cut behind every newline, the newline
  kept; a last line without newline is kept too.\<close>

fun readlines_from :: "pystr \<Rightarrow> pystr \<Rightarrow> pystr list" where
  "readlines_from cur [] = (if cur = [] then [] else [cur])"
| "readlines_from cur (c # cs) =
     (if c = NL then (cur @ [c]) # readlines_from [] cs else readlines_from (cur @ [c]) cs)"

definition readlines :: "pystr \<Rightarrow> pystr list" where
  "readlines s = readlines_from [] s"

text \<open>\<^verbatim>\<open>s.splitlines(keepends=True)\<close>: cuts behind every line boundary of
  \<^verbatim>\<open>str.splitlines\<close>, with \<^verbatim>\<open>\r\n\<close> as one boundary.\<close>

definition py_linebreak :: "nat \<Rightarrow> bool" where
  "py_linebreak c \<longleftrightarrow>
     (10 \<le> c \<and> c \<le> 13) \<or> (28 \<le> c \<and> c \<le> 30) \<or> c = 133 \<or> c = 8232 \<or> c = 8233"

fun splitlines_from :: "pystr \<Rightarrow> pystr \<Rightarrow> pystr list" where
  "splitlines_from cur [] = (if cur = [] then [] else [cur])"
| "splitlines_from cur [c] = [cur @ [c]]"
| "splitlines_from cur (c # d # cs) =
     (if c = 13 \<and> d = 10 then (cur @ [c, d]) # splitlines_from [] cs
      else if py_linebreak c then (cur @ [c]) # splitlines_from [] (d # cs)
      else splitlines_from (cur @ [c]) (d # cs))"

definition splitlines_keepends :: "pystr \<Rightarrow> pystr list" where
  "splitlines_keepends s = splitlines_from [] s"

text \<open>\<^verbatim>\<open>sorted(xs, reverse=True)\<close> on tuples of an integer and a string. Two tuples
  that compare equal are the same value, so the stable descending sort is the reversed
  ascending sort.\<close>

definition sorted_reverse :: "(int \<times> pystr) list \<Rightarrow> (int \<times> pystr) list" where
  "sorted_reverse xs = rev (sort xs)"

text \<open>Python list indexing: a negative index counts from the end, an index outside
  the list raises \<^verbatim>\<open>IndexError\<close> (the value \<open>None\<close> here).\<close>

definition py_index :: "nat \<Rightarrow> int \<Rightarrow> nat option" where
  "py_index n i =
     (let j = (if i < 0 then int n + i else i)
      in if 0 \<le> j \<and> j < int n then Some (nat j) else None)"

section \<open>Files, output and exceptions\<close>

text \<open>
  A file is the text that \<^verbatim>\<open>read()\<close> returns for it, or it exists and cannot be read or
  decoded. Every \<^verbatim>\<open>open(path, 'w')\<close> block of the scripts writes once; the world keeps
  the list of these writes beside the files. What a script prints is kept as a list of
  messages, one constructor for each \<^verbatim>\<open>print\<close> of the sources. An exception that leaves
  a script carries the world as it was when it was raised.
\<close>

datatype entry = Text pystr | Unreadable

datatype msg =
    FileNotFound path
  | RemovedTodo path int
  | AppliedSpecial path
  | Updated path
  | AllRemoved
  | AddedWrapperMethods
  | AddedNewMethods
  | NoInsertionPoint
  | UpdatedInterface

datatype error = FileNotFoundError path | ReadError path | IndexError

record world =
  files :: "path \<rightharpoonup> entry"
  writes :: "(path \<times> pystr) list"
  stdout :: "msg list"

type_synonym 'a result = "(error \<times> world) + 'a"

definition read_text :: "path \<Rightarrow> world \<Rightarrow> pystr result" where
  "read_text p w =
     (case files w p of
        None \<Rightarrow> Inl (FileNotFoundError p, w)
      | Some Unreadable \<Rightarrow> Inl (ReadError p, w)
      | Some (Text t) \<Rightarrow> Inr t)"

definition write_text :: "path \<Rightarrow> pystr \<Rightarrow> world \<Rightarrow> world" where
  "write_text p t w = w\<lparr>files := (files w)(p \<mapsto> Text t), writes := writes w @ [(p, t)]\<rparr>"

definition print :: "msg \<Rightarrow> world \<Rightarrow> world" where
  "print m w = w\<lparr>stdout := stdout w @ [m]\<rparr>"

definition path_exists :: "path \<Rightarrow> world \<Rightarrow> bool" where
  "path_exists p w \<longleftrightarrow> files w p \<noteq> None"

section \<open>remove-todos.py\<close>

text \<open>The two tables of the script are parameters: \<open>files_to_update\<close> in the order of
  the dictionary, \<open>special_replacements\<close> as a map.\<close>

record replacement =
  search :: pystr
  replace :: pystr

text \<open>The body of the inner loop for one \<open>(line_num, expected_content)\<close>.\<close>

definition remove_line ::
  "path \<Rightarrow> int \<times> pystr \<Rightarrow> pystr list \<times> world \<Rightarrow> (pystr list \<times> world) result" where
  "remove_line filepath target st =
     (case (target, st) of ((line_num, expected_content), (lines, w)) \<Rightarrow>
        let idx = line_num - 1 in
        if idx < int (length lines) then
          (case py_index (length lines) idx of
             None \<Rightarrow> Inl (IndexError, w)
           | Some k \<Rightarrow>
               if py_in TODO (lines ! k) \<or> py_in (py_strip expected_content) (lines ! k)
               then Inr (take k lines @ drop (Suc k) lines,
                         print (RemovedTodo filepath line_num) w)
               else Inr (lines, w))
        else Inr (lines, w))"

fun remove_each ::
  "path \<Rightarrow> (int \<times> pystr) list \<Rightarrow> pystr list \<times> world \<Rightarrow> (pystr list \<times> world) result" where
  "remove_each filepath [] st = Inr st"
| "remove_each filepath (t # ts) st =
     (case remove_line filepath t st of
        Inl e \<Rightarrow> Inl e
      | Inr st' \<Rightarrow> remove_each filepath ts st')"

text \<open>The loop \<^verbatim>\<open>for line_num, expected_content in sorted(todo_lines, reverse=True)\<close>.\<close>

definition remove_lines ::
  "path \<Rightarrow> (int \<times> pystr) list \<Rightarrow> pystr list \<times> world \<Rightarrow> (pystr list \<times> world) result" where
  "remove_lines filepath todo_lines st = remove_each filepath (sorted_reverse todo_lines) st"

definition apply_special ::
  "(path \<rightharpoonup> replacement) \<Rightarrow> path \<Rightarrow> pystr list \<times> world \<Rightarrow> pystr list \<times> world" where
  "apply_special special_replacements filepath st =
     (case st of (lines, w) \<Rightarrow>
        (case special_replacements filepath of
           None \<Rightarrow> (lines, w)
         | Some r \<Rightarrow>
             let content = concat lines in
             if py_in (search r) content
             then (splitlines_keepends (py_replace (search r) (replace r) content),
                   print (AppliedSpecial filepath) w)
             else (lines, w)))"

text \<open>The body of the outer loop for one file that exists.\<close>

definition update_file ::
  "(path \<rightharpoonup> replacement) \<Rightarrow> path \<Rightarrow> (int \<times> pystr) list \<Rightarrow> world \<Rightarrow> world result" where
  "update_file special_replacements filepath todo_lines w =
     (case read_text filepath w of
        Inl e \<Rightarrow> Inl e
      | Inr text \<Rightarrow>
          (case remove_lines filepath todo_lines (readlines text, w) of
             Inl e \<Rightarrow> Inl e
           | Inr st \<Rightarrow>
               (case apply_special special_replacements filepath st of (lines, w') \<Rightarrow>
                  Inr (print (Updated filepath) (write_text filepath (concat lines) w')))))"

fun remove_todos ::
  "(path \<times> (int \<times> pystr) list) list \<Rightarrow> (path \<rightharpoonup> replacement) \<Rightarrow> world \<Rightarrow> world result" where
  "remove_todos [] special_replacements w = Inr w"
| "remove_todos ((filepath, todo_lines) # rest) special_replacements w =
     (if \<not> path_exists filepath w
      then remove_todos rest special_replacements (print (FileNotFound filepath) w)
      else (case update_file special_replacements filepath todo_lines w of
              Inl e \<Rightarrow> Inl e
            | Inr w' \<Rightarrow> remove_todos rest special_replacements w'))"

definition remove_todos_main ::
  "(path \<times> (int \<times> pystr) list) list \<Rightarrow> (path \<rightharpoonup> replacement) \<Rightarrow> world \<Rightarrow> world result" where
  "remove_todos_main files_to_update special_replacements w =
     (case remove_todos files_to_update special_replacements w of
        Inl e \<Rightarrow> Inl e
      | Inr w' \<Rightarrow> Inr (print AllRemoved w'))"

section \<open>Anchor search\<close>

text \<open>
  \<^verbatim>\<open>re.search(pattern, content)\<close> scans the start offsets \<open>0, \<dots>, len(content)\<close> from the
  left and stops at the first one where the pattern matches; \<^verbatim>\<open>match.start()\<close> is that
  offset, and the result is \<^verbatim>\<open>None\<close> when there is none. A compiled pattern is taken as
  its test "the pattern matches the content starting at this offset".
\<close>

type_synonym pattern = "pystr \<Rightarrow> nat \<Rightarrow> bool"

definition re_search :: "pattern \<Rightarrow> pystr \<Rightarrow> nat option" where
  "re_search pattern content = find (pattern content) [0..<Suc (length content)]"

text \<open>The constructs of \<^verbatim>\<open>re\<close> that the two anchor patterns of the scripts use: a
  character, the class \<^verbatim>\<open>\s\<close>, sequence and \<^verbatim>\<open>*\<close>. \<open>Zero\<close>, \<open>One\<close> and \<open>Alt\<close> are there for
  the derivatives. A group \<^verbatim>\<open>(...)\<close> does not change where a pattern matches.\<close>

datatype rx = Zero | One | Chr nat | Space | Cat rx rx | Alt rx rx | Star rx

fun nullable :: "rx \<Rightarrow> bool" where
  "nullable Zero = False"
| "nullable One = True"
| "nullable (Chr a) = False"
| "nullable Space = False"
| "nullable (Cat r s) = (nullable r \<and> nullable s)"
| "nullable (Alt r s) = (nullable r \<or> nullable s)"
| "nullable (Star r) = True"

fun deriv :: "nat \<Rightarrow> rx \<Rightarrow> rx" where
  "deriv c Zero = Zero"
| "deriv c One = Zero"
| "deriv c (Chr a) = (if a = c then One else Zero)"
| "deriv c Space = (if py_isspace c then One else Zero)"
| "deriv c (Cat r s) =
     (if nullable r then Alt (Cat (deriv c r) s) (deriv c s) else Cat (deriv c r) s)"
| "deriv c (Alt r s) = Alt (deriv c r) (deriv c s)"
| "deriv c (Star r) = Cat (deriv c r) (Star r)"

text \<open>The pattern matches some prefix of the text.\<close>

fun rx_match_here :: "rx \<Rightarrow> pystr \<Rightarrow> bool" where
  "rx_match_here r [] = nullable r"
| "rx_match_here r (c # cs) = (nullable r \<or> rx_match_here (deriv c r) cs)"

definition rx_pattern :: "rx \<Rightarrow> pattern" where
  "rx_pattern r content i = rx_match_here r (drop i content)"

fun rx_lit :: "pystr \<Rightarrow> rx" where
  "rx_lit [] = One"
| "rx_lit (c # cs) = Cat (Chr c) (rx_lit cs)"

text \<open>\<^verbatim>\<open>r'(\}\n\n// Export singleton instance)'\<close> of add-wrapper-methods.py.\<close>

definition wrapper_pattern :: rx where
  "wrapper_pattern = rx_lit ([125, NL, NL] @ str ''// Export singleton instance'')"

text \<open>\<^verbatim>\<open>r'(\}\s*\n\s*expose\(new PDFWorker\(\)\))'\<close> of integrate.py.\<close>

definition worker_pattern :: rx where
  "worker_pattern =
     Cat (Chr 125) (Cat (Star Space) (Cat (Chr NL) (Cat (Star Space)
       (rx_lit (str ''expose(new PDFWorker())'')))))"

section \<open>add-wrapper-methods.py\<close>

text \<open>The pattern and the text of \<open>new_methods\<close> are parameters. The first definition is
  the value of \<open>updated_content\<close>, or \<open>None\<close> in the \<^verbatim>\<open>else\<close> branch.\<close>

definition wrapper_path :: path where
  "wrapper_path = ''src/lib/workerManager.ts''"

definition wrapper_updated_content :: "pattern \<Rightarrow> pystr \<Rightarrow> pystr \<Rightarrow> pystr option" where
  "wrapper_updated_content pattern new_methods content =
     (case re_search pattern content of
        Some insert_pos \<Rightarrow>
          Some (take insert_pos content @ new_methods @ [NL] @ drop insert_pos content)
      | None \<Rightarrow> None)"

definition add_wrapper_methods :: "pattern \<Rightarrow> pystr \<Rightarrow> world \<Rightarrow> world result" where
  "add_wrapper_methods pattern new_methods w =
     (case read_text wrapper_path w of
        Inl e \<Rightarrow> Inl e
      | Inr content \<Rightarrow>
          (case wrapper_updated_content pattern new_methods content of
             Some updated_content \<Rightarrow>
               Inr (print AddedWrapperMethods (write_text wrapper_path updated_content w))
           | None \<Rightarrow> Inr (print NoInsertionPoint w)))"

section \<open>integrate.py\<close>

text \<open>\<^verbatim>\<open>s.split('\n')\<close> and \<^verbatim>\<open>'\n'.join(xs)\<close>.\<close>

fun split_from :: "pystr \<Rightarrow> pystr \<Rightarrow> pystr list" where
  "split_from cur [] = [cur]"
| "split_from cur (c # cs) =
     (if c = NL then cur # split_from [] cs else split_from (cur @ [c]) cs)"

definition split_nl :: "pystr \<Rightarrow> pystr list" where
  "split_nl s = split_from [] s"

fun join_nl :: "pystr list \<Rightarrow> pystr" where
  "join_nl [] = []"
| "join_nl [x] = x"
| "join_nl (x # y # ys) = x @ [NL] @ join_nl (y # ys)"

definition worker_path :: path where
  "worker_path = ''src/workers/pdfWorker.ts''"

definition new_methods_path :: path where
  "new_methods_path = ''src/workers/pdfWorker-new-methods.ts''"

definition integrate_updated_content :: "pattern \<Rightarrow> pystr \<Rightarrow> pystr \<Rightarrow> pystr option" where
  "integrate_updated_content pattern new_methods_content content =
     (let new_methods_lines = drop 3 (split_nl new_methods_content);
          new_methods = join_nl new_methods_lines
      in case re_search pattern content of
           Some insert_pos \<Rightarrow>
             Some (take insert_pos content @ [NL] @ new_methods @ [NL] @ drop insert_pos content)
         | None \<Rightarrow> None)"

definition integrate :: "pattern \<Rightarrow> world \<Rightarrow> world result" where
  "integrate pattern w =
     (case read_text worker_path w of
        Inl e \<Rightarrow> Inl e
      | Inr content \<Rightarrow>
          (case read_text new_methods_path w of
             Inl e \<Rightarrow> Inl e
           | Inr new_methods_content \<Rightarrow>
               (case integrate_updated_content pattern new_methods_content content of
                  Some updated_content \<Rightarrow>
                    Inr (print AddedNewMethods (write_text worker_path updated_content w))
                | None \<Rightarrow> Inr (print NoInsertionPoint w))))"

section \<open>update-interface.py\<close>

text \<open>The literals \<open>old_closing\<close> and \<open>new_closing\<close> are parameters.\<close>

definition update_interface :: "pystr \<Rightarrow> pystr \<Rightarrow> world \<Rightarrow> world result" where
  "update_interface old_closing new_closing w =
     (case read_text worker_path w of
        Inl e \<Rightarrow> Inl e
      | Inr content \<Rightarrow>
          Inr (print UpdatedInterface
                 (write_text worker_path (py_replace old_closing new_closing content) w)))"

section \<open>Sample inputs\<close>

definition mk_world :: "(path \<times> entry) list \<Rightarrow> world" where
  "mk_world fs = \<lparr>files = map_of fs, writes = [], stdout = []\<rparr>"

definition line :: "string \<Rightarrow> pystr" where
  "line s = str s @ [NL]"

definition ten_lines :: "pystr list" where
  "ten_lines = map line [''l1'', ''l2'', ''// TODO: three'', ''l4'', ''l5'', ''l6'',
                         ''// TODO: seven'', ''l8'', ''l9'', ''l10'']"

text \<open>The buffer and the insertion of the scenario in the specification.\<close>

definition class_x :: pystr where
  "class_x = line ''class X {'' @ line ''  f() {}'' @ line ''}'' @ [NL] @ str ''// end''"

definition end_anchor :: rx where
  "end_anchor = rx_lit ([125, NL, NL] @ str ''// end'')"

definition method_g :: pystr where
  "method_g = line ''  g() {}''"

text \<open>Two files for remove-todos.py, of which only the second exists; its special
  replacement searches a literal that the file does not contain.\<close>

definition todo_file :: pystr where
  "todo_file = line ''// TODO: x'' @ line ''y''"

definition sample_world :: world where
  "sample_world = mk_world [(''b.tsx'', Text todo_file)]"

definition sample_files_to_update :: "(path \<times> (int \<times> pystr) list) list" where
  "sample_files_to_update = [(''a.tsx'', [(1, TODO)]), (''b.tsx'', [(1, TODO), (5, TODO)])]"

definition sample_special :: "path \<rightharpoonup> replacement" where
  "sample_special = map_of [(''b.tsx'', \<lparr>search = str ''zzz'', replace = str ''q''\<rparr>)]"

text \<open>The entry of \<open>special_replacements\<close> for \<^verbatim>\<open>ConvertToPDFTool.tsx\<close> in
  remove-todos.py, and a text that holds its search literal once and its replacement
  once.\<close>

definition convert_search :: pystr where
  "convert_search = str ''workerManager.convertToPDF''"

definition convert_replace :: pystr where
  "convert_replace = str ''workerManager.convertImageToPDF''"

definition sample_calls :: pystr where
  "sample_calls = str ''a = '' @ convert_replace @ str ''(x); b = '' @ convert_search @ str ''(y)''"

section \<open>Literals that overlap\<close>

text \<open>
  Two literals overlap when one can be laid over the other so that they share at least
  one position and agree on all positions they share: an end of one is a beginning of
  the other, or one occurs in the other. The empty literal overlaps every non-empty one.
  A literal has a border when a proper non-empty end of it is also a beginning of it.
  Both are conditions on the literals of a substitution, not on the buffer.
\<close>

definition overlaps :: "'a list \<Rightarrow> 'a list \<Rightarrow> bool" where
  "overlaps u v \<longleftrightarrow>
     list_ex (\<lambda>d. prefix (drop d v) u \<or> prefix u (drop d v)) [0..<length v] \<or>
     list_ex (\<lambda>e. prefix (drop e u) v \<or> prefix v (drop e u)) [0..<length u]"

definition bordered :: "'a list \<Rightarrow> bool" where
  "bordered v \<longleftrightarrow> list_ex (\<lambda>d. prefix (drop d v) v) [1..<length v]"

section \<open>The line deleter\<close>

lemma remove_line_above:
  "int (length lines) < line_num \<Longrightarrow> remove_line fp (line_num, e) (lines, w) = Inr (lines, w)"
  by (simp add: remove_line_def)

lemma remove_line_within:
  assumes "1 \<le> line_num" "line_num \<le> int (length lines)"
  shows "remove_line fp (line_num, e) (lines, w) =
     (if py_in TODO (lines ! (nat line_num - 1)) \<or>
         py_in (py_strip e) (lines ! (nat line_num - 1))
      then Inr (take (nat line_num - 1) lines @ drop (nat line_num) lines,
                print (RemovedTodo fp line_num) w)
      else Inr (lines, w))"
proof -
  have k: "py_index (length lines) (line_num - 1) = Some (nat line_num - 1)"
    using assms by (simp add: py_index_def nat_diff_distrib)
  have s: "Suc (nat line_num - 1) = nat line_num"
    using assms by simp
  show ?thesis
    using assms by (simp add: remove_line_def k s)
qed

lemma sort_mset_eq: "mset xs = mset ys \<Longrightarrow> sort xs = sort (ys :: ('a::linorder) list)"
  by (rule properties_for_sort) simp_all

lemma sorted_reverse_desc: "sorted_wrt (\<lambda>a b. fst b \<le> fst a) (sorted_reverse ts)"
proof -
  have "sorted_wrt (\<lambda>a b. a \<le> b) (sort ts)"
    by simp
  then have "sorted_wrt (\<lambda>a b. fst a \<le> fst b) (sort ts)"
    by (rule sorted_wrt_mono_rel[rotated]) (auto simp: less_eq_prod_def)
  then show ?thesis
    by (simp add: sorted_reverse_def sorted_wrt_rev)
qed

lemma ten_lines_length: "length ten_lines = 10"
  by (simp add: ten_lines_def)

text \<open>
  Claim C1. The deleter walks the targets in descending order of line number, whatever
  order the caller lists them in: two listings of the same targets give the same result
  (the same lines and output, or the same exception). Lines 3 and 7 of a buffer of ten
  lines, listed either way, leave the same eight lines.
\<close>

theorem remove_lines_order_independent:
  assumes "mset todo_lines = mset todo_lines'"
  shows "remove_lines fp todo_lines st = remove_lines fp todo_lines' st \<and>
         sorted_wrt (\<lambda>a b. fst b \<le> fst a) (sorted_reverse todo_lines)"
  using sort_mset_eq[OF assms] sorted_reverse_desc
  by (simp add: remove_lines_def sorted_reverse_def)

theorem remove_lines_order_independent_witness:
  "mset [(3, TODO), (7, TODO)] = mset [(7, TODO), (3 :: int, TODO)] \<and>
   remove_lines ''f'' [(3, TODO), (7, TODO)] (ten_lines, mk_world []) =
   remove_lines ''f'' [(7, TODO), (3, TODO)] (ten_lines, mk_world []) \<and>
   remove_lines ''f'' [(7, TODO), (3, TODO)] (ten_lines, mk_world []) =
   Inr ([line ''l1'', line ''l2'', line ''l4'', line ''l5'', line ''l6'', line ''l8'', line ''l9'', line ''l10''],
        print (RemovedTodo ''f'' 3) (print (RemovedTodo ''f'' 7) (mk_world [])))"
proof -
  have h: "mset [(3, TODO), (7, TODO)] = mset [(7, TODO), (3 :: int, TODO)]"
    by simp
  have s: "sorted_reverse [(7, TODO), (3, TODO)] = [(7, TODO), (3, TODO)]"
    by (simp add: sorted_reverse_def)
  have l7: "remove_line ''f'' (7, TODO) (ten_lines, mk_world []) =
      Inr ([line ''l1'', line ''l2'', line ''// TODO: three'', line ''l4'', line ''l5'', line ''l6'', line ''l8'', line ''l9'', line ''l10''], print (RemovedTodo ''f'' 7) (mk_world []))"
    by (simp add: remove_line_within ten_lines_length) (simp add: ten_lines_def line_def TODO_def NL_def)
  have l3: "remove_line ''f'' (3, TODO)
        ([line ''l1'', line ''l2'', line ''// TODO: three'', line ''l4'', line ''l5'', line ''l6'', line ''l8'', line ''l9'', line ''l10''], w) =
      Inr ([line ''l1'', line ''l2'', line ''l4'', line ''l5'', line ''l6'', line ''l8'', line ''l9'', line ''l10''],
           print (RemovedTodo ''f'' 3) w)" for w
    by (simp add: remove_line_within) (simp add: line_def TODO_def NL_def)
  have r: "remove_lines ''f'' [(7, TODO), (3, TODO)] (ten_lines, mk_world []) =
      Inr ([line ''l1'', line ''l2'', line ''l4'', line ''l5'', line ''l6'', line ''l8'', line ''l9'', line ''l10''],
           print (RemovedTodo ''f'' 3) (print (RemovedTodo ''f'' 7) (mk_world [])))"
    by (simp add: remove_lines_def s l7 l3)
  show ?thesis
    using h r remove_lines_order_independent [OF h, of "''f''" "(ten_lines, mk_world [])"]
    by simp
qed

text \<open>
  Claim C10. For a line number of at least 1 the deletion step raises nothing: it
  returns, and the lines it returns are the lines it was given, or these with exactly
  the line at that 1-based index taken out.
\<close>

theorem remove_line_total:
  assumes "1 \<le> line_num"
  shows "\<exists>lines' w'. remove_line fp (line_num, e) (lines, w) = Inr (lines', w') \<and>
           (lines' = lines \<or>
            (line_num \<le> int (length lines) \<and>
             lines' = take (nat line_num - 1) lines @ drop (nat line_num) lines))"
proof (cases "line_num \<le> int (length lines)")
  case True
  with assms show ?thesis
    by (simp add: remove_line_within)
next
  case False
  then show ?thesis
    by (simp add: remove_line_above)
qed

theorem remove_line_total_witness:
  "(1 :: int) \<le> 2 \<and>
   (\<exists>lines' w'. remove_line ''f'' (2, TODO) ([line ''a'', line ''TODO: x'', line ''b''], mk_world [])
        = Inr (lines', w') \<and>
      (lines' = [line ''a'', line ''TODO: x'', line ''b''] \<or>
       (2 \<le> int (length [line ''a'', line ''TODO: x'', line ''b'']) \<and>
        lines' = take (nat 2 - 1) [line ''a'', line ''TODO: x'', line ''b''] @
                 drop (nat 2) [line ''a'', line ''TODO: x'', line ''b''])))"
proof -
  have h: "(1 :: int) \<le> 2"
    by simp
  show ?thesis
    using h remove_line_total [OF h, of "''f''" TODO "[line ''a'', line ''TODO: x'', line ''b'']"
        "mk_world []"]
    by simp
qed

text \<open>
  Claim C4, as the code has it. A line number above the line count leaves the lines
  and the output as they are. A line number from 1 to the line count deletes the line
  exactly when the line contains \<open>TODO\<close> or contains the expected fragment with the
  whitespace at its two ends stripped; otherwise lines and output stay as they are.
\<close>

theorem remove_line_guarded:
  "(int (length lines) < line_num \<longrightarrow>
      remove_line fp (line_num, e) (lines, w) = Inr (lines, w)) \<and>
   (1 \<le> line_num \<and> line_num \<le> int (length lines) \<longrightarrow>
      remove_line fp (line_num, e) (lines, w) =
        (if py_in TODO (lines ! (nat line_num - 1)) \<or>
            py_in (py_strip e) (lines ! (nat line_num - 1))
         then Inr (take (nat line_num - 1) lines @ drop (nat line_num) lines,
                   print (RemovedTodo fp line_num) w)
         else Inr (lines, w)))"
  using remove_line_above remove_line_within by blast

theorem remove_line_guarded_witness:
  "int (length [line ''a'']) < 2 \<and>
   remove_line ''f'' (2, TODO) ([line ''a''], mk_world []) = Inr ([line ''a''], mk_world []) \<and>
   (1 :: int) \<le> 1 \<and> 1 \<le> int (length [line ''a'']) \<and>
   remove_line ''f'' (1, str ''  b'') ([line ''a''], mk_world []) = Inr ([line ''a''], mk_world []) \<and>
   remove_line ''f'' (1, str ''  a'') ([line ''a''], mk_world []) =
     Inr ([], print (RemovedTodo ''f'' 1) (mk_world []))"
proof -
  have h1: "int (length [line ''a'']) < 2"
    by simp
  have h2: "(1 :: int) \<le> 1 \<and> 1 \<le> int (length [line ''a''])"
    by simp
  show ?thesis
    using h1 h2
      remove_line_guarded [of "[line ''a'']" 2 "''f''" TODO "mk_world []"]
      remove_line_guarded [of "[line ''a'']" 1 "''f''" "str ''  b''" "mk_world []"]
      remove_line_guarded [of "[line ''a'']" 1 "''f''" "str ''  a''" "mk_world []"]
    by (simp add: py_strip_def py_isspace_def line_def TODO_def NL_def)
qed

text \<open>
  The claim C4 as written compares the line with the expected fragment itself. The line
  \<open>foo\<close> contains neither \<open>TODO\<close> nor the fragment \<open>  foo\<close> with its two leading blanks,
  and the target \<open>(1, '  foo')\<close> deletes it all the same.
\<close>

theorem remove_line_unstripped_counterexample:
  "\<not> py_in TODO (line ''foo'') \<and> \<not> py_in (str ''  foo'') (line ''foo'') \<and>
   remove_line ''f'' (1, str ''  foo'') ([line ''foo''], mk_world []) =
     Inr ([], print (RemovedTodo ''f'' 1) (mk_world []))"
  by (simp add: remove_line_def py_index_def py_strip_def py_isspace_def line_def TODO_def NL_def)

section \<open>Anchor resolution and insertion\<close>

lemma re_search_None:
  "re_search pattern content = None \<longleftrightarrow> (\<forall>i\<le>length content. \<not> pattern content i)"
proof -
  have "set [0..<Suc (length content)] = {i. i \<le> length content}"
    by auto
  then show ?thesis
    unfolding re_search_def find_None_iff by blast
qed

lemma re_search_Some:
  "re_search pattern content = Some k \<longleftrightarrow>
     k \<le> length content \<and> pattern content k \<and> (\<forall>j<k. \<not> pattern content j)"
proof
  assume "re_search pattern content = Some k"
  then obtain i where i: "i < length [0..<Suc (length content)]"
      "pattern content ([0..<Suc (length content)] ! i)" "k = [0..<Suc (length content)] ! i"
      "\<forall>j<i. \<not> pattern content ([0..<Suc (length content)] ! j)"
    unfolding re_search_def find_Some_iff by blast
  from i(1) have ik: "[0..<Suc (length content)] ! i = i"
    by (metis add_0 length_upt diff_zero nth_upt)
  have "\<forall>j<i. [0..<Suc (length content)] ! j = j"
    using i(1) by (metis add_0 length_upt diff_zero nth_upt order.strict_trans)
  with i ik show "k \<le> length content \<and> pattern content k \<and> (\<forall>j<k. \<not> pattern content j)"
    by auto
next
  assume a: "k \<le> length content \<and> pattern content k \<and> (\<forall>j<k. \<not> pattern content j)"
  then have k: "k < length [0..<Suc (length content)]"
    by simp
  have nth: "\<And>j. j \<le> k \<Longrightarrow> [0..<Suc (length content)] ! j = j"
    using a by (metis add_0 le_imp_less_Suc nth_upt order.trans)
  show "re_search pattern content = Some k"
    unfolding re_search_def find_Some_iff
    using a k nth by (intro exI[of _ k]) auto
qed

lemma re_search_first:
  assumes "i \<le> length content" "pattern content i"
  shows "\<exists>k. re_search pattern content = Some k \<and> k \<le> i \<and> pattern content k \<and>
             (\<forall>j<k. \<not> pattern content j)"
proof -
  from assms have "re_search pattern content \<noteq> None"
    by (auto simp: re_search_None)
  then obtain k where k: "re_search pattern content = Some k"
    by blast
  then have p: "pattern content k" "\<forall>j<k. \<not> pattern content j"
    by (simp_all add: re_search_Some)
  with assms have "k \<le> i"
    by (meson not_le)
  with k p show ?thesis
    by blast
qed

lemma add_wrapper_methods_no_anchor:
  assumes "files w wrapper_path = Some (Text content)" "re_search pattern content = None"
  shows "add_wrapper_methods pattern new_methods w = Inr (print NoInsertionPoint w)"
  using assms by (simp add: add_wrapper_methods_def read_text_def wrapper_updated_content_def)

lemma add_wrapper_methods_anchor:
  assumes "files w wrapper_path = Some (Text content)" "re_search pattern content = Some p"
  shows "add_wrapper_methods pattern new_methods w =
           Inr (print AddedWrapperMethods (write_text wrapper_path
                  (take p content @ new_methods @ [NL] @ drop p content) w))"
  using assms by (simp add: add_wrapper_methods_def read_text_def wrapper_updated_content_def)

lemma integrate_no_anchor:
  assumes "files w worker_path = Some (Text content)"
    "files w new_methods_path = Some (Text new_methods_content)"
    "re_search pattern content = None"
  shows "integrate pattern w = Inr (print NoInsertionPoint w)"
  using assms by (simp add: integrate_def read_text_def integrate_updated_content_def)

lemma print_keeps_files [simp]: "files (print m w) = files w" "writes (print m w) = writes w"
  by (simp_all add: print_def)

lemma write_text_files [simp]:
  "files (write_text p t w) = (files w)(p \<mapsto> Text t)"
  "writes (write_text p t w) = writes w @ [(p, t)]"
  "stdout (write_text p t w) = stdout w"
  by (simp_all add: write_text_def)

lemma print_stdout [simp]: "stdout (print m w) = stdout w @ [m]"
  by (simp add: print_def)

lemma integrate_anchor:
  assumes "files w worker_path = Some (Text content)"
    "files w new_methods_path = Some (Text new_methods_content)"
    "re_search pattern content = Some p"
  shows "integrate pattern w =
           Inr (print AddedNewMethods (write_text worker_path
                  (take p content @ [NL] @ join_nl (drop 3 (split_nl new_methods_content)) @
                   [NL] @ drop p content) w))"
  using assms by (simp add: integrate_def read_text_def integrate_updated_content_def)

lemma insertion_at:
  assumes "re_search pattern content = Some k"
  shows "wrapper_updated_content pattern new_methods content =
           Some (take k content @ new_methods @ [NL] @ drop k content) \<and>
         integrate_updated_content pattern new_methods_content content =
           Some (take k content @ [NL] @ join_nl (drop 3 (split_nl new_methods_content)) @
                 [NL] @ drop k content) \<and>
         (files w wrapper_path = Some (Text content) \<longrightarrow>
            add_wrapper_methods pattern new_methods w =
              Inr (print AddedWrapperMethods (write_text wrapper_path
                     (take k content @ new_methods @ [NL] @ drop k content) w))) \<and>
         (files w worker_path = Some (Text content) \<and>
          files w new_methods_path = Some (Text new_methods_content) \<longrightarrow>
            integrate pattern w =
              Inr (print AddedNewMethods (write_text worker_path
                     (take k content @ [NL] @ join_nl (drop 3 (split_nl new_methods_content)) @
                      [NL] @ drop k content) w)))"
proof (intro conjI impI)
  show "wrapper_updated_content pattern new_methods content =
      Some (take k content @ new_methods @ [NL] @ drop k content)"
    by (simp add: wrapper_updated_content_def assms)
  show "integrate_updated_content pattern new_methods_content content =
      Some (take k content @ [NL] @ join_nl (drop 3 (split_nl new_methods_content)) @
            [NL] @ drop k content)"
    by (simp add: integrate_updated_content_def assms)
  show "add_wrapper_methods pattern new_methods w =
      Inr (print AddedWrapperMethods (write_text wrapper_path
             (take k content @ new_methods @ [NL] @ drop k content) w))"
    if "files w wrapper_path = Some (Text content)"
    using that assms by (rule add_wrapper_methods_anchor)
  show "integrate pattern w =
      Inr (print AddedNewMethods (write_text worker_path
             (take k content @ [NL] @ join_nl (drop 3 (split_nl new_methods_content)) @
              [NL] @ drop k content) w))"
    if "files w worker_path = Some (Text content) \<and>
      files w new_methods_path = Some (Text new_methods_content)"
    using that [THEN conjunct1] that [THEN conjunct2] assms by (rule integrate_anchor)
qed

text \<open>
  Claim C3. When the anchor pattern matches at no offset of the buffer, the search
  returns nothing, no updated content is built, and both insertion scripts report that
  they found no insertion point and end with the files and the list of writes as they
  found them. When the pattern matches at some offset, the search returns the least
  offset where it matches, and it is at this first match that both scripts splice their
  text in and write the result. A pattern that matches at exactly one offset has the
  scripts insert at that offset.
\<close>

theorem anchor_resolution:
  "((\<forall>i\<le>length content. \<not> pattern content i) \<longrightarrow>
      re_search pattern content = None \<and>
      wrapper_updated_content pattern new_methods content = None \<and>
      integrate_updated_content pattern new_methods_content content = None \<and>
      (files w wrapper_path = Some (Text content) \<longrightarrow>
         (\<exists>w'. add_wrapper_methods pattern new_methods w = Inr w' \<and>
               files w' = files w \<and> writes w' = writes w \<and>
               stdout w' = stdout w @ [NoInsertionPoint])) \<and>
      (files w worker_path = Some (Text content) \<and>
       files w new_methods_path = Some (Text new_methods_content) \<longrightarrow>
         (\<exists>w'. integrate pattern w = Inr w' \<and> files w' = files w \<and> writes w' = writes w \<and>
               stdout w' = stdout w @ [NoInsertionPoint]))) \<and>
   (\<forall>i\<le>length content. pattern content i \<longrightarrow>
      (\<exists>k. k \<le> i \<and> pattern content k \<and> (\<forall>j<k. \<not> pattern content j) \<and>
           re_search pattern content = Some k \<and>
           wrapper_updated_content pattern new_methods content =
             Some (take k content @ new_methods @ [NL] @ drop k content) \<and>
           integrate_updated_content pattern new_methods_content content =
             Some (take k content @ [NL] @ join_nl (drop 3 (split_nl new_methods_content)) @
                   [NL] @ drop k content) \<and>
           (files w wrapper_path = Some (Text content) \<longrightarrow>
              add_wrapper_methods pattern new_methods w =
                Inr (print AddedWrapperMethods (write_text wrapper_path
                       (take k content @ new_methods @ [NL] @ drop k content) w))) \<and>
           (files w worker_path = Some (Text content) \<and>
            files w new_methods_path = Some (Text new_methods_content) \<longrightarrow>
              integrate pattern w =
                Inr (print AddedNewMethods (write_text worker_path
                       (take k content @ [NL] @ join_nl (drop 3 (split_nl new_methods_content)) @
                        [NL] @ drop k content) w))))) \<and>
   (\<forall>i\<le>length content.
      pattern content i \<and> (\<forall>j\<le>length content. pattern content j \<longrightarrow> j = i) \<longrightarrow>
      re_search pattern content = Some i \<and>
      wrapper_updated_content pattern new_methods content =
        Some (take i content @ new_methods @ [NL] @ drop i content) \<and>
      integrate_updated_content pattern new_methods_content content =
        Some (take i content @ [NL] @ join_nl (drop 3 (split_nl new_methods_content)) @
              [NL] @ drop i content) \<and>
      (files w wrapper_path = Some (Text content) \<longrightarrow>
         add_wrapper_methods pattern new_methods w =
           Inr (print AddedWrapperMethods (write_text wrapper_path
                  (take i content @ new_methods @ [NL] @ drop i content) w))) \<and>
      (files w worker_path = Some (Text content) \<and>
       files w new_methods_path = Some (Text new_methods_content) \<longrightarrow>
         integrate pattern w =
           Inr (print AddedNewMethods (write_text worker_path
                  (take i content @ [NL] @ join_nl (drop 3 (split_nl new_methods_content)) @
                   [NL] @ drop i content) w))))"
proof (intro conjI)
  show "(\<forall>i\<le>length content. \<not> pattern content i) \<longrightarrow>
      re_search pattern content = None \<and>
      wrapper_updated_content pattern new_methods content = None \<and>
      integrate_updated_content pattern new_methods_content content = None \<and>
      (files w wrapper_path = Some (Text content) \<longrightarrow>
         (\<exists>w'. add_wrapper_methods pattern new_methods w = Inr w' \<and>
               files w' = files w \<and> writes w' = writes w \<and>
               stdout w' = stdout w @ [NoInsertionPoint])) \<and>
      (files w worker_path = Some (Text content) \<and>
       files w new_methods_path = Some (Text new_methods_content) \<longrightarrow>
         (\<exists>w'. integrate pattern w = Inr w' \<and> files w' = files w \<and> writes w' = writes w \<and>
               stdout w' = stdout w @ [NoInsertionPoint]))"
  proof (intro impI conjI)
    assume "\<forall>i\<le>length content. \<not> pattern content i"
    then show n: "re_search pattern content = None"
      by (simp add: re_search_None)
    then show "wrapper_updated_content pattern new_methods content = None"
      by (simp add: wrapper_updated_content_def)
    from n show "integrate_updated_content pattern new_methods_content content = None"
      by (simp add: integrate_updated_content_def)
    show "\<exists>w'. add_wrapper_methods pattern new_methods w = Inr w' \<and>
        files w' = files w \<and> writes w' = writes w \<and> stdout w' = stdout w @ [NoInsertionPoint]"
      if "files w wrapper_path = Some (Text content)"
      unfolding add_wrapper_methods_no_anchor [OF that n] by simp
    show "\<exists>w'. integrate pattern w = Inr w' \<and> files w' = files w \<and> writes w' = writes w \<and>
        stdout w' = stdout w @ [NoInsertionPoint]"
      if "files w worker_path = Some (Text content) \<and>
        files w new_methods_path = Some (Text new_methods_content)"
      unfolding integrate_no_anchor [OF that [THEN conjunct1] that [THEN conjunct2] n] by simp
  qed
next
  show "\<forall>i\<le>length content. pattern content i \<longrightarrow>
      (\<exists>k. k \<le> i \<and> pattern content k \<and> (\<forall>j<k. \<not> pattern content j) \<and>
           re_search pattern content = Some k \<and>
           wrapper_updated_content pattern new_methods content =
             Some (take k content @ new_methods @ [NL] @ drop k content) \<and>
           integrate_updated_content pattern new_methods_content content =
             Some (take k content @ [NL] @ join_nl (drop 3 (split_nl new_methods_content)) @
                   [NL] @ drop k content) \<and>
           (files w wrapper_path = Some (Text content) \<longrightarrow>
              add_wrapper_methods pattern new_methods w =
                Inr (print AddedWrapperMethods (write_text wrapper_path
                       (take k content @ new_methods @ [NL] @ drop k content) w))) \<and>
           (files w worker_path = Some (Text content) \<and>
            files w new_methods_path = Some (Text new_methods_content) \<longrightarrow>
              integrate pattern w =
                Inr (print AddedNewMethods (write_text worker_path
                       (take k content @ [NL] @ join_nl (drop 3 (split_nl new_methods_content)) @
                        [NL] @ drop k content) w))))"
  proof (intro allI impI)
    fix i
    assume "i \<le> length content" "pattern content i"
    then obtain k where k: "re_search pattern content = Some k" "k \<le> i" "pattern content k"
        "\<forall>j<k. \<not> pattern content j"
      using re_search_first by blast
    note at = insertion_at [OF k(1), of new_methods new_methods_content w]
    from k at show "\<exists>k. k \<le> i \<and> pattern content k \<and> (\<forall>j<k. \<not> pattern content j) \<and>
        re_search pattern content = Some k \<and>
        wrapper_updated_content pattern new_methods content =
          Some (take k content @ new_methods @ [NL] @ drop k content) \<and>
        integrate_updated_content pattern new_methods_content content =
          Some (take k content @ [NL] @ join_nl (drop 3 (split_nl new_methods_content)) @
                [NL] @ drop k content) \<and>
        (files w wrapper_path = Some (Text content) \<longrightarrow>
           add_wrapper_methods pattern new_methods w =
             Inr (print AddedWrapperMethods (write_text wrapper_path
                    (take k content @ new_methods @ [NL] @ drop k content) w))) \<and>
        (files w worker_path = Some (Text content) \<and>
         files w new_methods_path = Some (Text new_methods_content) \<longrightarrow>
           integrate pattern w =
             Inr (print AddedNewMethods (write_text worker_path
                    (take k content @ [NL] @ join_nl (drop 3 (split_nl new_methods_content)) @
                     [NL] @ drop k content) w)))"
      by (intro exI [of _ k] conjI) (rule TrueI | assumption | elim conjE)+
  qed
next
  show "\<forall>i\<le>length content.
      pattern content i \<and> (\<forall>j\<le>length content. pattern content j \<longrightarrow> j = i) \<longrightarrow>
      re_search pattern content = Some i \<and>
      wrapper_updated_content pattern new_methods content =
        Some (take i content @ new_methods @ [NL] @ drop i content) \<and>
      integrate_updated_content pattern new_methods_content content =
        Some (take i content @ [NL] @ join_nl (drop 3 (split_nl new_methods_content)) @
              [NL] @ drop i content) \<and>
      (files w wrapper_path = Some (Text content) \<longrightarrow>
         add_wrapper_methods pattern new_methods w =
           Inr (print AddedWrapperMethods (write_text wrapper_path
                  (take i content @ new_methods @ [NL] @ drop i content) w))) \<and>
      (files w worker_path = Some (Text content) \<and>
       files w new_methods_path = Some (Text new_methods_content) \<longrightarrow>
         integrate pattern w =
           Inr (print AddedNewMethods (write_text worker_path
                  (take i content @ [NL] @ join_nl (drop 3 (split_nl new_methods_content)) @
                   [NL] @ drop i content) w)))"
  proof (intro allI impI)
    fix i
    assume i: "i \<le> length content"
      and u: "pattern content i \<and> (\<forall>j\<le>length content. pattern content j \<longrightarrow> j = i)"
    then obtain k where k: "re_search pattern content = Some k" "k \<le> i" "pattern content k"
      using re_search_first by blast
    with i u have "k = i"
      by (meson order.trans)
    with k have s: "re_search pattern content = Some i"
      by simp
    from s insertion_at [OF s, of new_methods new_methods_content w]
    show "re_search pattern content = Some i \<and>
      wrapper_updated_content pattern new_methods content =
        Some (take i content @ new_methods @ [NL] @ drop i content) \<and>
      integrate_updated_content pattern new_methods_content content =
        Some (take i content @ [NL] @ join_nl (drop 3 (split_nl new_methods_content)) @
              [NL] @ drop i content) \<and>
      (files w wrapper_path = Some (Text content) \<longrightarrow>
         add_wrapper_methods pattern new_methods w =
           Inr (print AddedWrapperMethods (write_text wrapper_path
                  (take i content @ new_methods @ [NL] @ drop i content) w))) \<and>
      (files w worker_path = Some (Text content) \<and>
       files w new_methods_path = Some (Text new_methods_content) \<longrightarrow>
         integrate pattern w =
           Inr (print AddedNewMethods (write_text worker_path
                  (take i content @ [NL] @ join_nl (drop 3 (split_nl new_methods_content)) @
                   [NL] @ drop i content) w)))"
      by (rule conjI)
  qed
qed

theorem anchor_resolution_witness:
  "re_search (rx_pattern (rx_lit (str ''ab''))) (str ''xyz'') = None \<and>
   (\<exists>w'. add_wrapper_methods (rx_pattern (rx_lit (str ''ab''))) method_g
           (mk_world [(wrapper_path, Text (str ''xyz''))]) = Inr w' \<and>
         files w' = files (mk_world [(wrapper_path, Text (str ''xyz''))]) \<and>
         writes w' = writes (mk_world [(wrapper_path, Text (str ''xyz''))]) \<and>
         stdout w' = stdout (mk_world [(wrapper_path, Text (str ''xyz''))]) @ [NoInsertionPoint]) \<and>
   3 \<le> length (str ''xabab'') \<and> rx_pattern (rx_lit (str ''ab'')) (str ''xabab'') 3 \<and>
   rx_pattern (rx_lit (str ''ab'')) (str ''xabab'') 1 \<and>
   re_search (rx_pattern (rx_lit (str ''ab''))) (str ''xabab'') = Some 1 \<and>
   add_wrapper_methods (rx_pattern (rx_lit (str ''ab''))) method_g
       (mk_world [(wrapper_path, Text (str ''xabab''))]) =
     Inr (print AddedWrapperMethods (write_text wrapper_path
            (str ''x'' @ method_g @ [NL] @ str ''abab'')
            (mk_world [(wrapper_path, Text (str ''xabab''))]))) \<and>
   re_search (rx_pattern (rx_lit (str ''ab''))) (str ''xab'') = Some 1 \<and>
   wrapper_updated_content (rx_pattern (rx_lit (str ''ab''))) method_g (str ''xab'') =
     Some (str ''x'' @ method_g @ [NL] @ str ''ab'')"
proof -
  let ?P = "rx_pattern (rx_lit (str ''ab''))"
  let ?w = "mk_world [(wrapper_path, Text (str ''xyz''))]"
  let ?w2 = "mk_world [(wrapper_path, Text (str ''xabab''))]"
  have "re_search ?P (str ''xyz'') = None"
    by (simp add: re_search_def rx_pattern_def upt_rec)
  then have h0: "\<forall>i\<le>length (str ''xyz''). \<not> ?P (str ''xyz'') i"
    by (simp only: re_search_None)
  have hf: "files ?w wrapper_path = Some (Text (str ''xyz''))"
    by (simp add: mk_world_def)
  have hf2: "files ?w2 wrapper_path = Some (Text (str ''xabab''))"
    by (simp add: mk_world_def)
  have h3: "3 \<le> length (str ''xabab'')" "?P (str ''xabab'') 3" "?P (str ''xabab'') 1"
    by (simp_all add: rx_pattern_def)
  have n0: "\<not> ?P (str ''xabab'') 0"
    by (simp add: rx_pattern_def)
  have u: "1 \<le> length (str ''xab'')"
      "?P (str ''xab'') 1 \<and> (\<forall>j\<le>length (str ''xab''). ?P (str ''xab'') j \<longrightarrow> j = 1)"
  proof -
    show "1 \<le> length (str ''xab'')"
      by simp
    have "j = 1" if "j \<le> length (str ''xab'')" "?P (str ''xab'') j" for j
    proof -
      from that(1) have "j = 0 \<or> j = 1 \<or> j = 2 \<or> j = 3"
        by simp arith
      with that(2) show ?thesis
        by (auto simp: rx_pattern_def)
    qed
    moreover have "?P (str ''xab'') 1"
      by (simp add: rx_pattern_def)
    ultimately show "?P (str ''xab'') 1 \<and>
        (\<forall>j\<le>length (str ''xab''). ?P (str ''xab'') j \<longrightarrow> j = 1)"
      by blast
  qed
  note a0 = anchor_resolution [of "str ''xyz''" ?P method_g "[]" ?w, THEN conjunct1, THEN mp,
      OF h0]
  note a1 = anchor_resolution [of "str ''xabab''" ?P method_g "[]" ?w2, THEN conjunct2,
      THEN conjunct1, rule_format, OF h3(1) h3(2)]
  note a2 = anchor_resolution [of "str ''xab''" ?P method_g "[]" ?w, THEN conjunct2,
      THEN conjunct2, rule_format, OF u]
  note c0 = a0 [THEN conjunct1]
  note c1 = a0 [THEN conjunct2, THEN conjunct2, THEN conjunct2, THEN conjunct1, THEN mp, OF hf]
  from a1 obtain k where k: "k \<le> 3" "?P (str ''xabab'') k" "\<forall>j<k. \<not> ?P (str ''xabab'') j"
      "re_search ?P (str ''xabab'') = Some k"
      "files ?w2 wrapper_path = Some (Text (str ''xabab'')) \<longrightarrow>
       add_wrapper_methods ?P method_g ?w2 =
         Inr (print AddedWrapperMethods (write_text wrapper_path
                (take k (str ''xabab'') @ method_g @ [NL] @ drop k (str ''xabab'')) ?w2))"
    by blast
  have "k = 1"
  proof -
    from k(3) h3(3) have "\<not> 1 < k"
      by blast
    moreover from k(2) n0 have "k \<noteq> 0"
      by (metis)
    ultimately show ?thesis
      by arith
  qed
  with k(4) k(5) hf2 have c2: "re_search ?P (str ''xabab'') = Some 1"
      "add_wrapper_methods ?P method_g ?w2 =
         Inr (print AddedWrapperMethods (write_text wrapper_path
                (str ''x'' @ method_g @ [NL] @ str ''abab'') ?w2))"
    by simp_all
  have c3: "re_search ?P (str ''xab'') = Some 1"
      "wrapper_updated_content ?P method_g (str ''xab'') =
         Some (str ''x'' @ method_g @ [NL] @ str ''ab'')"
    using a2 [THEN conjunct1] a2 [THEN conjunct2, THEN conjunct1] by simp_all
  show ?thesis
    using c0 c1 h3 c2 c3 by (intro conjI)
qed

lemma re_search_le: "re_search pattern content = Some k \<Longrightarrow> k \<le> length content"
  by (simp add: re_search_Some)

text \<open>
  Claim C5, as the code has it. With the anchor found at \<open>offset\<close>, add-wrapper-methods.py
  builds \<open>content[:offset] + new_methods + '\n' + content[offset:]\<close> and writes it, and
  integrate.py builds \<open>content[:offset] + '\n' + new_methods + '\n' + content[offset:]\<close>.
  The text before the offset and the text from the offset on are kept, and the character
  behind the inserted text is a newline, which is added whatever the inserted text ends
  with.
\<close>

theorem insertion_splice:
  assumes "re_search pattern content = Some offset"
  shows "wrapper_updated_content pattern new_methods content =
           Some (take offset content @ new_methods @ [NL] @ drop offset content) \<and>
         integrate_updated_content pattern new_methods_content content =
           Some (take offset content @ [NL] @ join_nl (drop 3 (split_nl new_methods_content)) @
                 [NL] @ drop offset content) \<and>
         (files w wrapper_path = Some (Text content) \<longrightarrow>
            (\<exists>w'. add_wrapper_methods pattern new_methods w = Inr w' \<and>
                  files w' wrapper_path =
                    Some (Text (take offset content @ new_methods @ [NL] @ drop offset content)))) \<and>
         take offset (take offset content @ new_methods @ [NL] @ drop offset content) =
           take offset content \<and>
         (take offset content @ new_methods @ [NL] @ drop offset content) !
           (offset + length new_methods) = NL \<and>
         drop (offset + length new_methods + 1)
           (take offset content @ new_methods @ [NL] @ drop offset content) = drop offset content"
proof -
  have le: "offset \<le> length content"
    using assms by (rule re_search_le)
  have nth: "(take offset content @ new_methods @ [NL] @ drop offset content) !
      (offset + length new_methods) = NL"
    using le by (simp add: nth_append)
  have dr: "drop (offset + length new_methods + 1)
      (take offset content @ new_methods @ [NL] @ drop offset content) = drop offset content"
    using le by simp
  have tk: "take offset (take offset content @ new_methods @ [NL] @ drop offset content) =
      take offset content"
    using le by simp
  have wu: "wrapper_updated_content pattern new_methods content =
      Some (take offset content @ new_methods @ [NL] @ drop offset content)"
    by (simp add: wrapper_updated_content_def assms)
  have iu: "integrate_updated_content pattern new_methods_content content =
      Some (take offset content @ [NL] @ join_nl (drop 3 (split_nl new_methods_content)) @
            [NL] @ drop offset content)"
    by (simp add: integrate_updated_content_def assms)
  have sc: "\<exists>w'. add_wrapper_methods pattern new_methods w = Inr w' \<and>
      files w' wrapper_path =
        Some (Text (take offset content @ new_methods @ [NL] @ drop offset content))"
    if "files w wrapper_path = Some (Text content)"
    unfolding add_wrapper_methods_anchor [OF that assms] by simp
  from wu iu sc tk nth dr show ?thesis
    by (intro conjI impI)
qed

lemma class_x_anchor: "re_search (rx_pattern end_anchor) class_x = Some 19"
  by (simp add: re_search_def rx_pattern_def end_anchor_def class_x_def line_def NL_def upt_rec)

theorem insertion_splice_witness:
  "re_search (rx_pattern end_anchor) class_x = Some 19 \<and>
   wrapper_updated_content (rx_pattern end_anchor) method_g class_x =
     Some (line ''class X {'' @ line ''  f() {}'' @ line ''  g() {}'' @ [NL] @ line ''}'' @ [NL] @
           str ''// end'')"
  using class_x_anchor insertion_splice [OF class_x_anchor, of method_g "[]" "mk_world []"]
  by (simp add: class_x_def method_g_def line_def)

text \<open>
  The claim C5 as written gives \<open>buffer[0:offset] + content + buffer[offset:]\<close>. On the
  scenario of the specification (the anchor is at offset 19, the content ends with a
  newline) the code builds a different buffer, with one more newline behind the content.
\<close>

theorem insertion_splice_counterexample:
  "re_search (rx_pattern end_anchor) class_x = Some 19 \<and>
   wrapper_updated_content (rx_pattern end_anchor) method_g class_x \<noteq>
     Some (take 19 class_x @ method_g @ drop 19 class_x)"
  using class_x_anchor
  by (simp add: wrapper_updated_content_def class_x_def method_g_def line_def NL_def)

lemma rx_anchor_survives:
  assumes "re_search (rx_pattern r) content = Some p"
  shows "\<exists>q. re_search (rx_pattern r) (take p content @ ins @ drop p content) = Some q \<and>
             q \<le> p + length ins"
proof -
  from assms have p: "p \<le> length content" "rx_pattern r content p"
    by (simp_all add: re_search_Some)
  then have "rx_pattern r (take p content @ ins @ drop p content) (p + length ins)"
    by (simp add: rx_pattern_def)
  moreover have "p + length ins \<le> length (take p content @ ins @ drop p content)"
    using p by simp
  ultimately show ?thesis
    using re_search_first by blast
qed

text \<open>
  Claim C7. The insertion is not idempotent. Take a file where the anchor is found, so
  that add-wrapper-methods.py patches it, and let the anchor match the patched buffer
  too (by \<open>rx_anchor_survives\<close> it always does for a pattern that looks at the text from
  the offset on only, as the two patterns of the scripts do). Then the second run writes
  the patched buffer with the new methods spliced in once more: two writes, a buffer
  longer by the inserted text again, and, when the second match is the shifted first
  one, the inserted text twice in a row.
\<close>

theorem insertion_not_idempotent:
  assumes "files w wrapper_path = Some (Text content)"
    and "re_search pattern content = Some p"
    and "patched = take p content @ new_methods @ [NL] @ drop p content"
    and "re_search pattern patched = Some q"
    and "twice = take q patched @ new_methods @ [NL] @ drop q patched"
  shows "\<exists>w1 w2. add_wrapper_methods pattern new_methods w = Inr w1 \<and>
           files w1 wrapper_path = Some (Text patched) \<and>
           add_wrapper_methods pattern new_methods w1 = Inr w2 \<and>
           files w2 wrapper_path = Some (Text twice) \<and>
           writes w2 = writes w @ [(wrapper_path, patched), (wrapper_path, twice)] \<and>
           twice \<noteq> patched \<and>
           length twice = length content + 2 * (length new_methods + 1) \<and>
           (q = p + length new_methods + 1 \<longrightarrow>
              twice = take p content @ new_methods @ [NL] @ new_methods @ [NL] @ drop p content)"
proof -
  let ?w1 = "print AddedWrapperMethods (write_text wrapper_path patched w)"
  let ?w2 = "print AddedWrapperMethods (write_text wrapper_path twice ?w1)"
  have r1: "add_wrapper_methods pattern new_methods w = Inr ?w1"
    unfolding assms(3) by (rule add_wrapper_methods_anchor [OF assms(1,2)])
  have f1: "files ?w1 wrapper_path = Some (Text patched)"
    by simp
  have r2: "add_wrapper_methods pattern new_methods ?w1 = Inr ?w2"
    unfolding assms(5) by (rule add_wrapper_methods_anchor [OF f1 assms(4)])
  have p: "p \<le> length content"
    using assms(2) by (rule re_search_le)
  have q: "q \<le> length patched"
    using assms(4) by (rule re_search_le)
  have lp: "length patched = length content + (length new_methods + 1)"
    using p assms(3) by simp
  have lt: "length twice = length patched + (length new_methods + 1)"
    using q assms(5) by simp
  have ne: "twice \<noteq> patched"
    using lt by auto
  have dup: "twice = take p content @ new_methods @ [NL] @ new_methods @ [NL] @ drop p content"
    if "q = p + length new_methods + 1"
  proof -
    have "patched = (take p content @ new_methods @ [NL]) @ drop p content"
      using assms(3) by simp
    moreover have "length (take p content @ new_methods @ [NL]) = q"
      using that p by simp
    ultimately have "take q patched = take p content @ new_methods @ [NL]"
        "drop q patched = drop p content"
      by (metis append_eq_conv_conj)+
    then show ?thesis
      using assms(5) by simp
  qed
  show ?thesis
    using r1 f1 r2 ne lp lt dup by (intro exI[of _ ?w1] exI[of _ ?w2]) simp
qed


theorem insertion_not_idempotent_witness:
  "files (mk_world [(wrapper_path, Text class_x)]) wrapper_path = Some (Text class_x) \<and>
   re_search (rx_pattern end_anchor) class_x = Some 19 \<and>
   re_search (rx_pattern end_anchor) (take 19 class_x @ method_g @ [NL] @ drop 19 class_x) =
     Some 29 \<and>
   (\<exists>w1 w2.
      add_wrapper_methods (rx_pattern end_anchor) method_g
        (mk_world [(wrapper_path, Text class_x)]) = Inr w1 \<and>
      add_wrapper_methods (rx_pattern end_anchor) method_g w1 = Inr w2 \<and>
      files w2 wrapper_path =
        Some (Text (line ''class X {'' @ line ''  f() {}'' @ line ''  g() {}'' @ [NL] @
                    line ''  g() {}'' @ [NL] @ line ''}'' @ [NL] @ str ''// end'')))"
proof -
  let ?w = "mk_world [(wrapper_path, Text class_x)]"
  let ?patched = "take 19 class_x @ method_g @ [NL] @ drop 19 class_x"
  let ?twice = "take 29 ?patched @ method_g @ [NL] @ drop 29 ?patched"
  have h1: "files ?w wrapper_path = Some (Text class_x)"
    by (simp add: mk_world_def)
  have h3: "re_search (rx_pattern end_anchor) ?patched = Some 29"
    by (simp add: re_search_def rx_pattern_def end_anchor_def class_x_def method_g_def line_def
        NL_def upt_rec)
  obtain w1 w2 where r:
    "add_wrapper_methods (rx_pattern end_anchor) method_g ?w = Inr w1"
    "add_wrapper_methods (rx_pattern end_anchor) method_g w1 = Inr w2"
    "files w2 wrapper_path = Some (Text ?twice)"
    using insertion_not_idempotent [OF h1 class_x_anchor refl h3 refl] by blast
  have "?twice = line ''class X {'' @ line ''  f() {}'' @ line ''  g() {}'' @ [NL] @
      line ''  g() {}'' @ [NL] @ line ''}'' @ [NL] @ str ''// end''"
    by (simp add: class_x_def method_g_def line_def)
  with r have "\<exists>w1 w2.
      add_wrapper_methods (rx_pattern end_anchor) method_g ?w = Inr w1 \<and>
      add_wrapper_methods (rx_pattern end_anchor) method_g w1 = Inr w2 \<and>
      files w2 wrapper_path =
        Some (Text (line ''class X {'' @ line ''  f() {}'' @ line ''  g() {}'' @ [NL] @
                    line ''  g() {}'' @ [NL] @ line ''}'' @ [NL] @ str ''// end''))"
    by (intro exI[of _ w1] exI[of _ w2]) simp
  with h1 class_x_anchor h3 show ?thesis
    by (intro conjI)
qed

section \<open>Reading, writing and the runs of the scripts\<close>

lemma read_text_Text: "files w p = Some (Text t) \<Longrightarrow> read_text p w = Inr t"
  by (simp add: read_text_def)

lemma read_text_missing: "files w p = None \<Longrightarrow> read_text p w = Inl (FileNotFoundError p, w)"
  by (simp add: read_text_def)

lemma read_text_unreadable: "files w p = Some Unreadable \<Longrightarrow> read_text p w = Inl (ReadError p, w)"
  by (simp add: read_text_def)

lemma remove_line_world:
  assumes "remove_line fp t (lines, w) = Inr (lines', w')"
  shows "files w' = files w \<and> writes w' = writes w"
  using assms
  by (cases t) (auto simp: remove_line_def Let_def split: if_splits option.splits)

lemma remove_each_total:
  assumes "\<forall>t\<in>set ts. 1 \<le> fst t"
  shows "\<exists>lines' w'. remove_each fp ts (lines, w) = Inr (lines', w') \<and>
           files w' = files w \<and> writes w' = writes w"
  using assms
proof (induction ts arbitrary: lines w)
  case Nil
  then show ?case
    by simp
next
  case (Cons t ts)
  obtain n e where t: "t = (n, e)"
    by (cases t)
  with Cons.prems have "1 \<le> n"
    by simp
  then obtain l1 w1 where s: "remove_line fp (n, e) (lines, w) = Inr (l1, w1)"
    using remove_line_above [of lines n fp e w] remove_line_within [of n lines fp e w]
    by (cases "n \<le> int (length lines)") (simp_all split: if_splits)
  then have k: "files w1 = files w \<and> writes w1 = writes w"
    by (rule remove_line_world)
  from Cons.prems have "\<forall>t\<in>set ts. 1 \<le> fst t"
    by simp
  then obtain l2 w2 where "remove_each fp ts (l1, w1) = Inr (l2, w2)"
      "files w2 = files w1 \<and> writes w2 = writes w1"
    using Cons.IH by blast
  with s k t show ?case
    by simp
qed

lemma remove_lines_total:
  assumes "\<forall>t\<in>set todo_lines. 1 \<le> fst t"
  shows "\<exists>lines' w'. remove_lines fp todo_lines (lines, w) = Inr (lines', w') \<and>
           files w' = files w \<and> writes w' = writes w"
proof -
  have "\<forall>t\<in>set (sorted_reverse todo_lines). 1 \<le> fst t"
    using assms by (simp add: sorted_reverse_def)
  then show ?thesis
    unfolding remove_lines_def by (rule remove_each_total)
qed

lemma apply_special_world:
  "files (snd (apply_special sr fp (lines, w))) = files w \<and>
   writes (snd (apply_special sr fp (lines, w))) = writes w"
  by (simp add: apply_special_def Let_def split: option.splits)

lemma update_file_writes:
  assumes "files w fp = Some (Text text)"
    and "remove_lines fp todo_lines (readlines text, w) = Inr (lines, w1)"
    and "files w1 = files w \<and> writes w1 = writes w"
  shows "\<exists>w'. update_file sr fp todo_lines w = Inr w' \<and>
           writes w' = writes w @ [(fp, concat (fst (apply_special sr fp (lines, w1))))] \<and>
           files w' fp = Some (Text (concat (fst (apply_special sr fp (lines, w1)))))"
proof -
  obtain l2 w2 where a: "apply_special sr fp (lines, w1) = (l2, w2)"
    by (cases "apply_special sr fp (lines, w1)")
  with apply_special_world [of sr fp lines w1] assms(3)
  have k: "files w2 = files w" "writes w2 = writes w"
    by simp_all
  have "update_file sr fp todo_lines w = Inr (print (Updated fp) (write_text fp (concat l2) w2))"
    by (simp add: update_file_def read_text_Text [OF assms(1)] assms(2) a)
  with k a show ?thesis
    by simp
qed

lemma add_wrapper_methods_writes:
  assumes "files w wrapper_path = Some (Text text)"
  shows "\<exists>w'. add_wrapper_methods pattern new_methods w = Inr w' \<and>
           writes w' = writes w @
             (case wrapper_updated_content pattern new_methods text of
                None \<Rightarrow> [] | Some u \<Rightarrow> [(wrapper_path, u)])"
  by (simp add: add_wrapper_methods_def read_text_Text [OF assms] split: option.splits)

lemma integrate_writes:
  assumes "files w worker_path = Some (Text text)"
    and "files w new_methods_path = Some (Text new_methods_content)"
  shows "\<exists>w'. integrate pattern w = Inr w' \<and>
           writes w' = writes w @
             (case integrate_updated_content pattern new_methods_content text of
                None \<Rightarrow> [] | Some u \<Rightarrow> [(worker_path, u)])"
  by (simp add: integrate_def read_text_Text [OF assms(1)] read_text_Text [OF assms(2)]
      split: option.splits)

lemma update_interface_writes:
  assumes "files w worker_path = Some (Text text)"
  shows "update_interface old_closing new_closing w =
           Inr (print UpdatedInterface
                  (write_text worker_path (py_replace old_closing new_closing text) w))"
  by (simp add: update_interface_def read_text_Text [OF assms])

text \<open>
  Claim C2, as the code has it. remove-todos.py, for a file that can be read and targets
  with line numbers from 1 on, returns and appends exactly one write, of the final
  buffer, whatever targets were skipped and whether or not the special replacement found
  its literal. update-interface.py writes exactly once too. In add-wrapper-methods.py
  and integrate.py the write is in the branch where the anchor was found: the run
  returns in both branches, with one write when the anchor is found and with none when
  it is not.
\<close>

theorem best_effort_write:
  "(files w fp = Some (Text text) \<and> (\<forall>t\<in>set todo_lines. 1 \<le> fst t) \<longrightarrow>
      (\<exists>lines w1 w'.
         remove_lines fp todo_lines (readlines text, w) = Inr (lines, w1) \<and>
         update_file sr fp todo_lines w = Inr w' \<and>
         writes w' = writes w @ [(fp, concat (fst (apply_special sr fp (lines, w1))))])) \<and>
   (files w worker_path = Some (Text text) \<longrightarrow>
      (\<exists>w'. update_interface old_closing new_closing w = Inr w' \<and>
            writes w' = writes w @ [(worker_path, py_replace old_closing new_closing text)])) \<and>
   (files w wrapper_path = Some (Text text) \<longrightarrow>
      (\<exists>w'. add_wrapper_methods pattern new_methods w = Inr w' \<and>
            writes w' = writes w @
              (case re_search pattern text of
                 None \<Rightarrow> []
               | Some k \<Rightarrow> [(wrapper_path, take k text @ new_methods @ [NL] @ drop k text)]))) \<and>
   (files w worker_path = Some (Text text) \<and>
    files w new_methods_path = Some (Text new_methods_content) \<longrightarrow>
      (\<exists>w'. integrate pattern w = Inr w' \<and>
            writes w' = writes w @
              (case re_search pattern text of
                 None \<Rightarrow> []
               | Some k \<Rightarrow>
                   [(worker_path,
                     take k text @ [NL] @ join_nl (drop 3 (split_nl new_methods_content)) @ [NL] @
                     drop k text)])))"
proof (intro conjI impI)
  assume a: "files w fp = Some (Text text) \<and> (\<forall>t\<in>set todo_lines. 1 \<le> fst t)"
  then obtain lines w1 where r: "remove_lines fp todo_lines (readlines text, w) = Inr (lines, w1)"
      "files w1 = files w \<and> writes w1 = writes w"
    using remove_lines_total by blast
  with a obtain w' where "update_file sr fp todo_lines w = Inr w'"
      "writes w' = writes w @ [(fp, concat (fst (apply_special sr fp (lines, w1))))]"
    using update_file_writes by blast
  with r(1) show "\<exists>lines w1 w'.
      remove_lines fp todo_lines (readlines text, w) = Inr (lines, w1) \<and>
      update_file sr fp todo_lines w = Inr w' \<and>
      writes w' = writes w @ [(fp, concat (fst (apply_special sr fp (lines, w1))))]"
    by blast
next
  assume "files w worker_path = Some (Text text)"
  then show "\<exists>w'. update_interface old_closing new_closing w = Inr w' \<and>
      writes w' = writes w @ [(worker_path, py_replace old_closing new_closing text)]"
    by (simp add: update_interface_writes)
next
  assume a: "files w wrapper_path = Some (Text text)"
  show "\<exists>w'. add_wrapper_methods pattern new_methods w = Inr w' \<and>
      writes w' = writes w @
        (case re_search pattern text of
           None \<Rightarrow> []
         | Some k \<Rightarrow> [(wrapper_path, take k text @ new_methods @ [NL] @ drop k text)])"
    using add_wrapper_methods_writes [OF a, of pattern new_methods]
    by (simp add: wrapper_updated_content_def split: option.splits)
next
  assume a: "files w worker_path = Some (Text text) \<and>
    files w new_methods_path = Some (Text new_methods_content)"
  show "\<exists>w'. integrate pattern w = Inr w' \<and>
      writes w' = writes w @
        (case re_search pattern text of
           None \<Rightarrow> []
         | Some k \<Rightarrow>
             [(worker_path,
               take k text @ [NL] @ join_nl (drop 3 (split_nl new_methods_content)) @ [NL] @
               drop k text)])"
    using integrate_writes [OF a [THEN conjunct1] a [THEN conjunct2], of pattern]
    by (simp add: integrate_updated_content_def split: option.splits)
qed


lemma sample_remove_lines:
  "remove_lines ''b.tsx'' [(1, TODO), (5, TODO)] (readlines todo_file, w) =
     Inr ([line ''y''], print (RemovedTodo ''b.tsx'' 1) w)"
proof -
  have s: "sorted_reverse [(1, TODO), (5, TODO)] = [(5, TODO), (1, TODO)]"
    by (simp add: sorted_reverse_def)
  have r: "readlines todo_file = [line ''// TODO: x'', line ''y'']"
    by (simp add: readlines_def todo_file_def line_def NL_def)
  have l5: "remove_line ''b.tsx'' (5, TODO) ([line ''// TODO: x'', line ''y''], w) =
      Inr ([line ''// TODO: x'', line ''y''], w)"
    by (simp add: remove_line_above)
  have l1: "remove_line ''b.tsx'' (1, TODO) ([line ''// TODO: x'', line ''y''], w) =
      Inr ([line ''y''], print (RemovedTodo ''b.tsx'' 1) w)"
    by (simp add: remove_line_within) (simp add: line_def TODO_def NL_def)
  show ?thesis
    by (simp add: remove_lines_def s r l5 l1)
qed

lemma sample_apply_special:
  "apply_special sample_special ''b.tsx'' ([line ''y''], w) = ([line ''y''], w)"
  by (simp add: apply_special_def sample_special_def line_def NL_def)

theorem best_effort_write_witness:
  "files sample_world ''b.tsx'' = Some (Text todo_file) \<and>
   (\<exists>w'. update_file sample_special ''b.tsx'' [(1, TODO), (5, TODO)] sample_world = Inr w' \<and>
         writes w' = [(''b.tsx'', line ''y'')]) \<and>
   files (mk_world [(wrapper_path, Text class_x)]) wrapper_path = Some (Text class_x) \<and>
   (\<exists>w'. add_wrapper_methods (rx_pattern end_anchor) method_g
           (mk_world [(wrapper_path, Text class_x)]) = Inr w' \<and>
         writes w' = [(wrapper_path, take 19 class_x @ method_g @ [NL] @ drop 19 class_x)])"
proof -
  let ?ts = "[(1, TODO), (5 :: int, TODO)]"
  let ?w2 = "mk_world [(wrapper_path, Text class_x)]"
  have h1: "files sample_world ''b.tsx'' = Some (Text todo_file) \<and> (\<forall>t\<in>set ?ts. 1 \<le> fst t)"
    by (simp add: sample_world_def mk_world_def)
  have h2: "files ?w2 wrapper_path = Some (Text class_x)"
    by (simp add: mk_world_def)
  note b = best_effort_write [of sample_world "''b.tsx''" todo_file ?ts sample_special]
  obtain lines w1 w' where r:
    "remove_lines ''b.tsx'' ?ts (readlines todo_file, sample_world) = Inr (lines, w1)"
    "update_file sample_special ''b.tsx'' ?ts sample_world = Inr w'"
    "writes w' = writes sample_world @
       [(''b.tsx'', concat (fst (apply_special sample_special ''b.tsx'' (lines, w1))))]"
    using b [THEN conjunct1, THEN mp, OF h1] by blast
  from r(1) have "lines = [line ''y'']"
    by (simp add: sample_remove_lines)
  with r(3) have "writes w' = [(''b.tsx'', line ''y'')]"
    by (simp add: sample_apply_special sample_world_def mk_world_def)
  with r(2) have c1: "\<exists>w'. update_file sample_special ''b.tsx'' ?ts sample_world = Inr w' \<and>
      writes w' = [(''b.tsx'', line ''y'')]"
    by blast
  note a = best_effort_write [of ?w2 "''b.tsx''" class_x ?ts sample_special "[]" "[]"
      "rx_pattern end_anchor" method_g, THEN conjunct2, THEN conjunct2, THEN conjunct1, THEN mp,
      OF h2]
  then have c2: "\<exists>w'. add_wrapper_methods (rx_pattern end_anchor) method_g ?w2 = Inr w' \<and>
      writes w' = [(wrapper_path, take 19 class_x @ method_g @ [NL] @ drop 19 class_x)]"
    by (simp add: class_x_anchor mk_world_def)
  from h1 [THEN conjunct1] c1 h2 c2 show ?thesis
    by (intro conjI)
qed

text \<open>
  The claim C2 as written has one write in every run, also when the anchor is not found.
  add-wrapper-methods.py on a file without the anchor prints that it found no insertion
  point and ends with no write at all.
\<close>

theorem best_effort_write_counterexample:
  "add_wrapper_methods (rx_pattern wrapper_pattern) method_g
     (mk_world [(wrapper_path, Text (str ''xyz''))]) =
     Inr (print NoInsertionPoint (mk_world [(wrapper_path, Text (str ''xyz''))])) \<and>
   writes (print NoInsertionPoint (mk_world [(wrapper_path, Text (str ''xyz''))])) = []"
proof -
  have "re_search (rx_pattern wrapper_pattern) (str ''xyz'') = None"
    by (simp add: re_search_def rx_pattern_def wrapper_pattern_def NL_def upt_rec)
  moreover have "files (mk_world [(wrapper_path, Text (str ''xyz''))]) wrapper_path =
      Some (Text (str ''xyz''))"
    by (simp add: mk_world_def)
  ultimately show ?thesis
    by (simp add: add_wrapper_methods_no_anchor) (simp add: mk_world_def)
qed

text \<open>
  Claim C9, as the code has it. add-wrapper-methods.py, integrate.py and
  update-interface.py open their files without a test: a file that is missing or cannot
  be read raises, and the run ends there with the world as it was, so before any write.
  remove-todos.py tests \<open>os.path.exists\<close> first: a missing file is reported and skipped,
  and the loop goes on with the files that remain; a file that exists and cannot be read
  raises before it is written.
\<close>

theorem io_errors:
  "(files w wrapper_path = None \<longrightarrow>
      add_wrapper_methods pattern new_methods w = Inl (FileNotFoundError wrapper_path, w)) \<and>
   (files w wrapper_path = Some Unreadable \<longrightarrow>
      add_wrapper_methods pattern new_methods w = Inl (ReadError wrapper_path, w)) \<and>
   (files w worker_path = None \<longrightarrow>
      integrate pattern w = Inl (FileNotFoundError worker_path, w) \<and>
      update_interface old_closing new_closing w = Inl (FileNotFoundError worker_path, w)) \<and>
   (files w worker_path = Some Unreadable \<longrightarrow>
      integrate pattern w = Inl (ReadError worker_path, w) \<and>
      update_interface old_closing new_closing w = Inl (ReadError worker_path, w)) \<and>
   (files w worker_path = Some (Text text) \<and> files w new_methods_path = None \<longrightarrow>
      integrate pattern w = Inl (FileNotFoundError new_methods_path, w)) \<and>
   (files w fp = None \<longrightarrow>
      remove_todos ((fp, todo_lines) # rest) sr w =
        remove_todos rest sr (print (FileNotFound fp) w)) \<and>
   (files w fp = Some Unreadable \<longrightarrow>
      remove_todos ((fp, todo_lines) # rest) sr w = Inl (ReadError fp, w))"
  by (simp add: add_wrapper_methods_def integrate_def update_interface_def update_file_def
      path_exists_def read_text_def)

theorem io_errors_witness:
  "files (mk_world []) wrapper_path = None \<and>
   add_wrapper_methods (rx_pattern wrapper_pattern) method_g (mk_world []) =
     Inl (FileNotFoundError wrapper_path, mk_world []) \<and>
   files (mk_world [(worker_path, Unreadable)]) worker_path = Some Unreadable \<and>
   update_interface (str ''a'') (str ''b'') (mk_world [(worker_path, Unreadable)]) =
     Inl (ReadError worker_path, mk_world [(worker_path, Unreadable)]) \<and>
   files sample_world ''a.tsx'' = None \<and>
   remove_todos ((''a.tsx'', [(1, TODO)]) # [(''b.tsx'', [(1, TODO), (5, TODO)])])
       sample_special sample_world =
     remove_todos [(''b.tsx'', [(1, TODO), (5, TODO)])] sample_special
       (print (FileNotFound ''a.tsx'') sample_world)"
proof -
  have h1: "files (mk_world []) wrapper_path = None"
    by (simp add: mk_world_def)
  have h2: "files (mk_world [(worker_path, Unreadable)]) worker_path = Some Unreadable"
    by (simp add: mk_world_def)
  have h3: "files sample_world ''a.tsx'' = None"
    by (simp add: sample_world_def mk_world_def)
  note a = io_errors [of "mk_world []" "rx_pattern wrapper_pattern" method_g, THEN conjunct1,
      THEN mp, OF h1]
  note b = io_errors [of "mk_world [(worker_path, Unreadable)]" _ _ "str ''a''" "str ''b''",
      THEN conjunct2, THEN conjunct2, THEN conjunct2, THEN conjunct1, THEN mp, OF h2,
      THEN conjunct2]
  note c = io_errors [of sample_world _ _ _ _ _ "''a.tsx''" "[(1, TODO)]"
      "[(''b.tsx'', [(1, TODO), (5, TODO)])]" sample_special,
      THEN conjunct2, THEN conjunct2, THEN conjunct2, THEN conjunct2, THEN conjunct2,
      THEN conjunct1, THEN mp, OF h3]
  from h1 a h2 b h3 c show ?thesis
    by (intro conjI)
qed

text \<open>
  The claim C9 as written makes a missing file fatal for the whole run. In
  remove-todos.py the first file of the sample table is missing: the run raises nothing,
  reports the file, and goes on to patch and write the second file.
\<close>

theorem io_errors_counterexample:
  "files sample_world ''a.tsx'' = None \<and>
   remove_todos sample_files_to_update sample_special sample_world =
     Inr (print (Updated ''b.tsx'') (write_text ''b.tsx'' (line ''y'')
            (print (RemovedTodo ''b.tsx'' 1) (print (FileNotFound ''a.tsx'') sample_world)))) \<and>
   writes (print (Updated ''b.tsx'') (write_text ''b.tsx'' (line ''y'')
            (print (RemovedTodo ''b.tsx'' 1) (print (FileNotFound ''a.tsx'') sample_world)))) =
     [(''b.tsx'', line ''y'')]"
proof -
  have h: "files sample_world ''a.tsx'' = None"
      "files (print (FileNotFound ''a.tsx'') sample_world) ''b.tsx'' = Some (Text todo_file)"
    by (simp_all add: sample_world_def mk_world_def)
  have u: "update_file sample_special ''b.tsx'' [(1, TODO), (5, TODO)]
        (print (FileNotFound ''a.tsx'') sample_world) =
      Inr (print (Updated ''b.tsx'') (write_text ''b.tsx'' (line ''y'')
             (print (RemovedTodo ''b.tsx'' 1) (print (FileNotFound ''a.tsx'') sample_world))))"
    by (simp add: update_file_def read_text_Text [OF h(2)] sample_remove_lines
        sample_apply_special)
  have "remove_todos sample_files_to_update sample_special sample_world =
      Inr (print (Updated ''b.tsx'') (write_text ''b.tsx'' (line ''y'')
             (print (RemovedTodo ''b.tsx'' 1) (print (FileNotFound ''a.tsx'') sample_world))))"
    using h by (simp add: sample_files_to_update_def path_exists_def u)
  moreover have "writes (print (Updated ''b.tsx'') (write_text ''b.tsx'' (line ''y'')
      (print (RemovedTodo ''b.tsx'' 1) (print (FileNotFound ''a.tsx'') sample_world)))) =
      [(''b.tsx'', line ''y'')]"
    by (simp add: sample_world_def mk_world_def)
  ultimately show ?thesis
    using h(1) by (intro conjI)
qed

section \<open>Substitution\<close>

lemma py_in_Nil [simp]: "py_in [] s"
  by (induction s) simp_all

lemma py_in_sublist: "py_in sub s \<longleftrightarrow> sublist sub s"
  by (induction s) (simp_all add: sublist_Cons_right)

lemma py_replace_scan_absent: "\<not> py_in old s \<Longrightarrow> py_replace_scan old new s = s"
  by (induction s) auto

lemma py_replace_absent: "\<not> py_in old s \<Longrightarrow> py_replace old new s = s"
  using py_in_Nil [of s] by (auto simp: py_replace_def py_replace_scan_absent)

text \<open>
  Claim C8, as the code has it. When the search literal does not occur in the buffer,
  the replacement returns the buffer as it is. The special replacement of
  remove-todos.py is then skipped: lines and output stay as they are and no replacement
  is reported. update-interface.py has no test for the literal: it writes back the text
  it read and prints its success line, as it does for every text it can read.
\<close>

theorem literal_not_found:
  assumes "\<not> py_in s buf"
  shows "py_replace s r buf = buf \<and>
         (files w worker_path = Some (Text buf) \<longrightarrow>
            (\<exists>w'. update_interface s r w = Inr w' \<and>
                  writes w' = writes w @ [(worker_path, buf)] \<and>
                  files w' worker_path = Some (Text buf) \<and>
                  stdout w' = stdout w @ [UpdatedInterface])) \<and>
         (files w worker_path = Some (Text t) \<longrightarrow>
            (\<exists>w'. update_interface s r w = Inr w' \<and>
                  stdout w' = stdout w @ [UpdatedInterface])) \<and>
         (concat lines = buf \<and> sr fp = Some \<lparr>search = s, replace = r\<rparr> \<longrightarrow>
            apply_special sr fp (lines, w) = (lines, w))"
proof (intro conjI impI)
  show "py_replace s r buf = buf"
    using assms by (rule py_replace_absent)
  then show "\<exists>w'. update_interface s r w = Inr w' \<and>
      writes w' = writes w @ [(worker_path, buf)] \<and> files w' worker_path = Some (Text buf) \<and>
      stdout w' = stdout w @ [UpdatedInterface]"
    if "files w worker_path = Some (Text buf)"
    by (simp add: update_interface_writes [OF that])
  show "\<exists>w'. update_interface s r w = Inr w' \<and> stdout w' = stdout w @ [UpdatedInterface]"
    if "files w worker_path = Some (Text t)"
    by (simp add: update_interface_writes [OF that])
  show "apply_special sr fp (lines, w) = (lines, w)"
    if "concat lines = buf \<and> sr fp = Some \<lparr>search = s, replace = r\<rparr>"
    using that assms by (simp add: apply_special_def)
qed

theorem literal_not_found_witness:
  "\<not> py_in (str ''zzz'') todo_file \<and>
   py_replace (str ''zzz'') (str ''q'') todo_file = todo_file \<and>
   files (mk_world [(worker_path, Text todo_file)]) worker_path = Some (Text todo_file) \<and>
   (\<exists>w'. update_interface (str ''zzz'') (str ''q'') (mk_world [(worker_path, Text todo_file)]) =
           Inr w' \<and>
         writes w' = writes (mk_world [(worker_path, Text todo_file)]) @
           [(worker_path, todo_file)] \<and>
         files w' worker_path = Some (Text todo_file) \<and>
         stdout w' = stdout (mk_world [(worker_path, Text todo_file)]) @ [UpdatedInterface]) \<and>
   apply_special sample_special ''b.tsx'' (readlines todo_file, sample_world) =
     (readlines todo_file, sample_world)"
proof -
  have h: "\<not> py_in (str ''zzz'') todo_file"
    by (simp add: todo_file_def line_def NL_def)
  have f: "files (mk_world [(worker_path, Text todo_file)]) worker_path = Some (Text todo_file)"
    by (simp add: mk_world_def)
  have g: "concat (readlines todo_file) = todo_file \<and>
      sample_special ''b.tsx'' = Some \<lparr>search = str ''zzz'', replace = str ''q''\<rparr>"
    by (simp add: readlines_def todo_file_def line_def NL_def sample_special_def)
  note a = literal_not_found [OF h, of "str ''q''" "mk_world [(worker_path, Text todo_file)]"]
  note b = literal_not_found [OF h, of "str ''q''" sample_world _ "readlines todo_file"
      sample_special "''b.tsx''"]
  from h a [THEN conjunct1] f a [THEN conjunct2, THEN conjunct1, THEN mp, OF f]
    b [THEN conjunct2, THEN conjunct2, THEN conjunct2, THEN mp, OF g]
  show ?thesis
    by (intro conjI)
qed

text \<open>
  The claim C8 as written has the operation report that the literal was not found.
  update-interface.py on a text without the literal writes the text back and prints the
  same success line that it prints when the literal is there and is replaced.
\<close>

theorem literal_not_found_counterexample:
  "\<not> py_in (str ''zzz'') todo_file \<and>
   update_interface (str ''zzz'') (str ''q'') (mk_world [(worker_path, Text todo_file)]) =
     Inr (print UpdatedInterface
            (write_text worker_path todo_file (mk_world [(worker_path, Text todo_file)]))) \<and>
   py_in (str ''y'') todo_file \<and>
   update_interface (str ''y'') (str ''q'') (mk_world [(worker_path, Text todo_file)]) =
     Inr (print UpdatedInterface
            (write_text worker_path (line ''// TODO: x'' @ line ''q'')
               (mk_world [(worker_path, Text todo_file)]))) \<and>
   stdout (print UpdatedInterface
            (write_text worker_path todo_file (mk_world [(worker_path, Text todo_file)]))) =
     [UpdatedInterface] \<and>
   stdout (print UpdatedInterface
            (write_text worker_path (line ''// TODO: x'' @ line ''q'')
               (mk_world [(worker_path, Text todo_file)]))) =
     [UpdatedInterface]"
proof -
  have f: "files (mk_world [(worker_path, Text todo_file)]) worker_path = Some (Text todo_file)"
    by (simp add: mk_world_def)
  have r: "py_replace (str ''zzz'') (str ''q'') todo_file = todo_file"
      "py_replace (str ''y'') (str ''q'') todo_file = line ''// TODO: x'' @ line ''q''"
    by (simp_all add: py_replace_def todo_file_def line_def NL_def)
  have i: "\<not> py_in (str ''zzz'') todo_file" "py_in (str ''y'') todo_file"
    by (simp_all add: todo_file_def line_def NL_def)
  have u1: "update_interface (str ''zzz'') (str ''q'') (mk_world [(worker_path, Text todo_file)]) =
      Inr (print UpdatedInterface
             (write_text worker_path todo_file (mk_world [(worker_path, Text todo_file)])))"
    unfolding update_interface_writes [OF f] r(1) by (rule refl)
  have u2: "update_interface (str ''y'') (str ''q'') (mk_world [(worker_path, Text todo_file)]) =
      Inr (print UpdatedInterface
             (write_text worker_path (line ''// TODO: x'' @ line ''q'')
                (mk_world [(worker_path, Text todo_file)])))"
    unfolding update_interface_writes [OF f] r(2) by (rule refl)
  have s: "stdout (print UpdatedInterface
        (write_text worker_path todo_file (mk_world [(worker_path, Text todo_file)]))) =
      [UpdatedInterface]"
    "stdout (print UpdatedInterface
        (write_text worker_path (line ''// TODO: x'' @ line ''q'')
           (mk_world [(worker_path, Text todo_file)]))) =
      [UpdatedInterface]"
    by (simp_all add: mk_world_def)
  from i(1) u1 i(2) u2 s show ?thesis
    by (intro conjI)
qed

lemma overlaps_iff:
  "overlaps u v \<longleftrightarrow>
     (\<exists>d<length v. prefix (drop d v) u \<or> prefix u (drop d v)) \<or>
     (\<exists>e<length u. prefix (drop e u) v \<or> prefix v (drop e u))"
  by (auto simp: overlaps_def list_ex_iff)

lemma bordered_iff: "bordered v \<longleftrightarrow> (\<exists>d. 0 < d \<and> d < length v \<and> prefix (drop d v) v)"
  by (force simp: bordered_def list_ex_iff Suc_le_eq)

lemma prefix_append_comparable: "prefix a (b @ t) \<Longrightarrow> prefix a b \<or> prefix b a"
  by (auto simp: prefix_append)

lemma no_overlap_new_nonempty: "old \<noteq> [] \<Longrightarrow> \<not> overlaps old new \<Longrightarrow> new \<noteq> []"
  by (auto simp: overlaps_iff)

lemma no_old_inside_new:
  assumes "\<not> overlaps old new" "d < length new"
  shows "\<not> prefix old (drop d new @ t)"
proof
  assume "prefix old (drop d new @ t)"
  then have "prefix old (drop d new) \<or> prefix (drop d new) old"
    by (rule prefix_append_comparable)
  with assms show False
    by (auto simp: overlaps_iff)
qed

lemma no_new_inside_old:
  assumes "\<not> overlaps old new" "e < length old"
  shows "\<not> prefix new (drop e old @ t)"
proof
  assume "prefix new (drop e old @ t)"
  then have "prefix new (drop e old) \<or> prefix (drop e old) new"
    by (rule prefix_append_comparable)
  with assms show False
    by (auto simp: overlaps_iff)
qed

lemma prefix_over_new:
  assumes "\<not> overlaps old new" "prefix old (g2 @ new @ t)"
  shows "prefix old g2"
proof -
  from assms(2) consider "prefix old g2" | us where "old = g2 @ us" "prefix us (new @ t)"
    by (auto simp: prefix_append)
  then show ?thesis
  proof cases
    case 1
    then show ?thesis .
  next
    case 2
    show ?thesis
    proof (cases "us = []")
      case True
      with 2 show ?thesis
        by simp
    next
      case False
      with 2(1) have e: "length g2 < length old" "drop (length g2) old = us"
        by simp_all
      from 2(2) have "prefix new ([] @ us) \<or> prefix us new"
        using prefix_append_comparable [of us new t] by auto
      with e assms(1) show ?thesis
        by (auto simp: overlaps_iff)
    qed
  qed
qed

lemma py_in_append:
  "py_in old (g @ t) \<longleftrightarrow> (\<exists>g2. suffix g2 g \<and> g2 \<noteq> [] \<and> prefix old (g2 @ t)) \<or> py_in old t"
proof (induction g)
  case Nil
  then show ?case
    by simp
next
  case (Cons x g)
  have "(\<exists>g2. suffix g2 (x # g) \<and> g2 \<noteq> [] \<and> prefix old (g2 @ t)) \<longleftrightarrow>
      prefix old ((x # g) @ t) \<or> (\<exists>g2. suffix g2 g \<and> g2 \<noteq> [] \<and> prefix old (g2 @ t))"
    by (auto simp: suffix_Cons)
  with Cons.IH show ?case
    by auto
qed

lemma scan_no_occurrence:
  "old \<noteq> [] \<Longrightarrow> \<not> overlaps old new \<Longrightarrow>
   \<not> (\<exists>g2. suffix g2 g \<and> g2 \<noteq> [] \<and> prefix old (g2 @ buf)) \<Longrightarrow>
   \<not> py_in old (g @ py_replace_scan old new buf)"
proof (induction old new buf arbitrary: g rule: py_replace_scan.induct)
  case (1 old new)
  then show ?case
    using py_in_append [of old g "[]"] by simp
next
  case (2 old new c cs)
  show ?case
  proof (cases "prefix old (c # cs)")
    case True
    let ?rest = "py_replace_scan old new (drop (length old) (c # cs))"
    have rest: "\<not> py_in old ?rest"
      using "2.IH"(1) [of "[]"] True "2.prems"(1,2) by simp
    have "\<not> py_in old (new @ ?rest)"
    proof
      assume "py_in old (new @ ?rest)"
      with rest obtain g2 where g2: "suffix g2 new" "g2 \<noteq> []" "prefix old (g2 @ ?rest)"
        by (auto simp: py_in_append)
      from g2(1) obtain p where p: "new = p @ g2"
        by (auto simp: suffix_def)
      with g2(2) have "length p < length new" "drop (length p) new = g2"
        by simp_all
      with g2(3) "2.prems"(2) show False
        using no_old_inside_new [of old new "length p" ?rest] by simp
    qed
    moreover have "\<not> (\<exists>g2. suffix g2 g \<and> g2 \<noteq> [] \<and> prefix old (g2 @ new @ ?rest))"
    proof
      assume "\<exists>g2. suffix g2 g \<and> g2 \<noteq> [] \<and> prefix old (g2 @ new @ ?rest)"
      then obtain g2 where g2: "suffix g2 g" "g2 \<noteq> []" "prefix old (g2 @ new @ ?rest)"
        by blast
      then have "prefix old g2"
        using "2.prems"(2) prefix_over_new by blast
      then have "prefix old (g2 @ c # cs)"
        by (rule prefix_prefix)
      with g2 "2.prems"(3) show False
        by blast
    qed
    ultimately have "\<not> py_in old (g @ new @ ?rest)"
      by (simp add: py_in_append [of old g])
    with True "2.prems"(1) show ?thesis
      by simp
  next
    case False
    have "\<not> (\<exists>g2. suffix g2 (g @ [c]) \<and> g2 \<noteq> [] \<and> prefix old (g2 @ cs))"
    proof
      assume "\<exists>g2. suffix g2 (g @ [c]) \<and> g2 \<noteq> [] \<and> prefix old (g2 @ cs)"
      then obtain g2 where g2: "suffix g2 (g @ [c])" "g2 \<noteq> []" "prefix old (g2 @ cs)"
        by blast
      from g2(1,2) obtain zs where z: "g2 = zs @ [c]" "suffix zs g"
        by auto
      with g2(3) have zs: "suffix zs g" "prefix old (zs @ c # cs)"
        by simp_all
      show False
      proof (cases "zs = []")
        case True
        with zs False show ?thesis
          by simp
      next
        case nonempty: False
        with zs "2.prems"(3) show ?thesis
          by blast
      qed
    qed
    then have "\<not> py_in old ((g @ [c]) @ py_replace_scan old new cs)"
      using "2.IH"(2) [of "g @ [c]"] False "2.prems"(1,2) by blast
    with False show ?thesis
      by simp
  qed
qed

lemma py_count_self_append: "new \<noteq> [] \<Longrightarrow> py_count new (new @ t) = Suc (py_count new t)"
  by (cases new) simp_all

text \<open>A stretch of text in which no occurrence starts is copied by the replacing scan
  and passed over by the counting scan.\<close>

lemma scan_copies:
  "(\<forall>i<length a. \<not> prefix old (drop i (a @ t))) \<Longrightarrow>
   py_replace_scan old new (a @ t) = a @ py_replace_scan old new t"
proof (induction a)
  case Nil
  then show ?case
    by simp
next
  case (Cons x a)
  from Cons.prems have "\<not> prefix old (drop 0 ((x # a) @ t))"
    by blast
  then have n: "\<not> prefix old (x # a @ t)"
    by simp
  have "\<forall>i<length a. \<not> prefix old (drop i (a @ t))"
  proof (intro allI impI)
    fix i
    assume "i < length a"
    then have "Suc i < length (x # a)"
      by simp
    with Cons.prems have "\<not> prefix old (drop (Suc i) ((x # a) @ t))"
      by blast
    then show "\<not> prefix old (drop i (a @ t))"
      by simp
  qed
  with Cons.IH n show ?case
    by simp
qed

lemma count_skips:
  "(\<forall>i<length a. \<not> prefix sub (drop i (a @ t))) \<Longrightarrow> py_count sub (a @ t) = py_count sub t"
proof (induction a)
  case Nil
  then show ?case
    by simp
next
  case (Cons x a)
  from Cons.prems have "\<not> prefix sub (drop 0 ((x # a) @ t))"
    by blast
  then have n: "\<not> prefix sub (x # a @ t)"
    by simp
  have "\<forall>i<length a. \<not> prefix sub (drop i (a @ t))"
  proof (intro allI impI)
    fix i
    assume "i < length a"
    then have "Suc i < length (x # a)"
      by simp
    with Cons.prems have "\<not> prefix sub (drop (Suc i) ((x # a) @ t))"
      by blast
    then show "\<not> prefix sub (drop i (a @ t))"
      by simp
  qed
  with Cons.IH n show ?case
    by simp
qed

text \<open>The replacement does not create an occurrence of \<open>new\<close> at a place before the
  first replaced occurrence, when \<open>new\<close> has no border.\<close>

lemma scan_no_new_start:
  "\<not> bordered new \<Longrightarrow> a \<noteq> [] \<Longrightarrow> \<not> prefix new (a @ buf) \<Longrightarrow>
   \<not> prefix new (a @ py_replace_scan old new buf)"
proof (induction old new buf arbitrary: a rule: py_replace_scan.induct)
  case (1 old new)
  then show ?case
    by simp
next
  case (2 old new c cs)
  show ?case
  proof (cases "old \<noteq> [] \<and> prefix old (c # cs)")
    case True
    let ?rest = "py_replace_scan old new (drop (length old) (c # cs))"
    have "\<not> prefix new (a @ new @ ?rest)"
    proof
      assume "prefix new (a @ new @ ?rest)"
      then consider "prefix new a" | us where "new = a @ us" "prefix us (new @ ?rest)"
        using prefix_append [of new a "new @ ?rest"] by blast
      then show False
      proof cases
        case 1
        then have "prefix new (a @ c # cs)"
          by (rule prefix_prefix)
        with "2.prems"(3) show ?thesis
          by simp
      next
        case 2
        have la: "length new = length a + length us"
          by (subst 2(1)) (rule length_append)
        have dr: "drop (length a) new = us"
          by (subst 2(1)) simp
        show ?thesis
        proof (cases "us = []")
          case True
          have "a @ us = a"
            unfolding True by (rule append_Nil2)
          then have "new = a"
            using 2(1) by (rule back_subst [where P = "\<lambda>x. new = x", rotated])
          then have "prefix new (a @ c # cs)"
            by (simp only: prefixI [OF refl])
          with "2.prems"(3) show ?thesis
            by blast
        next
          case False
          have pos: "0 < length a"
            using "2.prems"(2) by (rule length_greater_0_conv [THEN iffD2])
          from False have "0 < length us"
            by (rule length_greater_0_conv [THEN iffD2])
          with la have lt: "length a < length new"
            by arith
          from 2(2) have "prefix us new \<or> prefix new us"
            by (rule prefix_append_comparable)
          moreover have "\<not> prefix new us"
          proof
            assume "prefix new us"
            then have "length new \<le> length us"
              by (rule prefix_length_le)
            with la pos show False
              by arith
          qed
          ultimately have "prefix (drop (length a) new) new"
            unfolding dr by blast
          with pos lt have "\<exists>d. 0 < d \<and> d < length new \<and> prefix (drop d new) new"
            by blast
          then have "bordered new"
            by (rule bordered_iff [THEN iffD2])
          with "2.prems"(1) show ?thesis
            by blast
        qed
      qed
    qed
    with True show ?thesis
      by simp
  next
    case False
    have "\<not> prefix new ((a @ [c]) @ py_replace_scan old new cs)"
      using "2.IH"(2) [of "a @ [c]"] False "2.prems"(1,3) by simp
    with False show ?thesis
      by auto
  qed
qed

lemma py_count_scan:
  assumes "old \<noteq> []" "\<not> overlaps old new" "\<not> bordered new"
  shows "py_count new (py_replace_scan old new buf) = py_count new buf + py_count old buf"
proof (induction buf rule: length_induct)
  case (1 buf)
  have new: "new \<noteq> []"
    using assms(1,2) by (rule no_overlap_new_nonempty)
  show ?case
  proof (cases buf)
    case Nil
    then show ?thesis
      by simp
  next
    case (Cons c cs)
    consider (old) "prefix old buf" | (new) "\<not> prefix old buf" "prefix new buf"
      | (none) "\<not> prefix old buf" "\<not> prefix new buf"
      by blast
    then show ?thesis
    proof cases
      case old
      then obtain rest where rest: "buf = old @ rest"
        by (auto simp: prefix_def)
      with assms(1) have "length rest < length buf"
        by simp
      with 1 have ih: "py_count new (py_replace_scan old new rest) =
          py_count new rest + py_count old rest"
        by blast
      have "\<forall>i<length old. \<not> prefix new (drop i (old @ rest))"
        using no_new_inside_old [OF assms(2)] by simp
      then have k: "py_count new (old @ rest) = py_count new rest"
        by (rule count_skips)
      have "py_replace_scan old new (old @ rest) = new @ py_replace_scan old new rest"
        using assms(1) by (cases old) simp_all
      moreover have "py_count old (old @ rest) = Suc (py_count old rest)"
        using assms(1) by (rule py_count_self_append)
      ultimately show ?thesis
        using rest ih k new by (simp add: py_count_self_append)
    next
      case new
      then obtain rest where rest: "buf = new @ rest"
        by (auto simp: prefix_def)
      with \<open>new \<noteq> []\<close> have "length rest < length buf"
        by simp
      with 1 have ih: "py_count new (py_replace_scan old new rest) =
          py_count new rest + py_count old rest"
        by blast
      have no: "\<forall>i<length new. \<not> prefix old (drop i (new @ rest))"
        using no_old_inside_new [OF assms(2)] by simp
      then have "py_replace_scan old new (new @ rest) = new @ py_replace_scan old new rest"
        by (rule scan_copies)
      moreover from no have "py_count old (new @ rest) = py_count old rest"
        by (rule count_skips)
      ultimately show ?thesis
        using rest ih \<open>new \<noteq> []\<close> by (simp add: py_count_self_append)
    next
      case none
      from Cons 1 have ih: "py_count new (py_replace_scan old new cs) =
          py_count new cs + py_count old cs"
        by simp
      from none(2) Cons have "\<not> prefix new ([c] @ cs)"
        by simp
      with assms(3) have "\<not> prefix new ([c] @ py_replace_scan old new cs)"
        by (intro scan_no_new_start) simp_all
      with none Cons ih show ?thesis
        by simp
    qed
  qed
qed

lemma length_scan:
  "length (py_replace_scan old new buf) + py_count old buf * length old =
   length buf + py_count old buf * length new"
proof (induction old new buf rule: py_replace_scan.induct)
  case (1 old new)
  then show ?case
    by simp
next
  case (2 old new c cs)
  show ?case
  proof (cases "old \<noteq> [] \<and> prefix old (c # cs)")
    case True
    then have le: "length old \<le> length (c # cs)"
      by (auto dest: prefix_length_le)
    from True "2.IH"(1)
    have "length (py_replace_scan old new (drop (length old) (c # cs))) +
        py_count old (drop (length old) (c # cs)) * length old =
        length (drop (length old) (c # cs)) +
        py_count old (drop (length old) (c # cs)) * length new"
      by simp
    with True le show ?thesis
      by simp
  next
    case False
    with "2.IH"(2) show ?thesis
      by auto
  qed
qed

lemma concat_splitlines_from: "concat (splitlines_from cur s) = cur @ s"
  by (induction cur s rule: splitlines_from.induct) simp_all

lemma apply_special_replaces:
  assumes "sr fp = Some \<lparr>search = s, replace = r\<rparr>"
  shows "concat (fst (apply_special sr fp (lines, w))) = py_replace s r (concat lines)"
  using assms
  by (auto simp: apply_special_def Let_def splitlines_keepends_def concat_splitlines_from
      py_replace_absent)

text \<open>
  Claim C6, as the code has it. \<open>str.replace\<close>, which update-interface.py applies to
  the text it read and remove-todos.py to the joined lines, is one scan from the left
  that replaces the occurrences of \<open>s\<close> it meets, \<open>count(s)\<close> of them: the length changes
  by \<open>count(s)\<close> times the difference of the two lengths, and a buffer without \<open>s\<close> is
  returned as it is. When \<open>s\<close> and \<open>r\<close> do not overlap, the result contains no occurrence
  of \<open>s\<close>. When moreover \<open>r\<close> has no border, the count of \<open>r\<close> grows by exactly the count
  of \<open>s\<close>.
\<close>

theorem substitution_replaces_all:
  assumes "s \<noteq> []"
  shows "length (py_replace s r buf) + py_count s buf * length s =
           length buf + py_count s buf * length r \<and>
         (\<not> py_in s buf \<longrightarrow> py_replace s r buf = buf) \<and>
         (\<not> overlaps s r \<longrightarrow>
            \<not> py_in s (py_replace s r buf) \<and>
            (\<not> bordered r \<longrightarrow>
               py_count r (py_replace s r buf) = py_count r buf + py_count s buf)) \<and>
         (files w worker_path = Some (Text buf) \<longrightarrow>
            update_interface s r w =
              Inr (print UpdatedInterface (write_text worker_path (py_replace s r buf) w))) \<and>
         (sr fp = Some \<lparr>search = s, replace = r\<rparr> \<and> concat lines = buf \<longrightarrow>
            concat (fst (apply_special sr fp (lines, w))) = py_replace s r buf)"
proof (intro conjI impI)
  show "length (py_replace s r buf) + py_count s buf * length s =
      length buf + py_count s buf * length r"
    using assms by (simp add: py_replace_def length_scan)
  show "py_replace s r buf = buf" if "\<not> py_in s buf"
    using that by (rule py_replace_absent)
  show "\<not> py_in s (py_replace s r buf)" if "\<not> overlaps s r"
  proof -
    have "\<not> py_in s ([] @ py_replace_scan s r buf)"
      using assms that by (intro scan_no_occurrence) simp_all
    then show ?thesis
      using assms by (simp add: py_replace_def)
  qed
  show "py_count r (py_replace s r buf) = py_count r buf + py_count s buf"
    if "\<not> overlaps s r" "\<not> bordered r"
    using assms that by (simp add: py_replace_def py_count_scan)
  show "update_interface s r w =
      Inr (print UpdatedInterface (write_text worker_path (py_replace s r buf) w))"
    if "files w worker_path = Some (Text buf)"
    using that by (rule update_interface_writes)
  show "concat (fst (apply_special sr fp (lines, w))) = py_replace s r buf"
    if "sr fp = Some \<lparr>search = s, replace = r\<rparr> \<and> concat lines = buf"
    using that apply_special_replaces [of sr fp s r lines w] by simp
qed

lemma convert_literals:
  "convert_search \<noteq> []" "\<not> overlaps convert_search convert_replace"
  "\<not> bordered convert_replace"
  by (simp_all add: convert_search_def convert_replace_def overlaps_def bordered_def upt_rec)

lemma sample_calls_counts:
  "py_count convert_replace sample_calls = 1" "py_count convert_search sample_calls = 1"
  by (simp_all add: sample_calls_def convert_search_def convert_replace_def)

theorem substitution_replaces_all_witness:
  "convert_search \<noteq> [] \<and> \<not> overlaps convert_search convert_replace \<and>
   \<not> bordered convert_replace \<and>
   py_count convert_replace sample_calls = 1 \<and> py_count convert_search sample_calls = 1 \<and>
   \<not> py_in convert_search (py_replace convert_search convert_replace sample_calls) \<and>
   py_count convert_replace (py_replace convert_search convert_replace sample_calls) = 2"
proof -
  note a = substitution_replaces_all [OF convert_literals(1), of convert_replace sample_calls,
      THEN conjunct2, THEN conjunct2, THEN conjunct1, THEN mp, OF convert_literals(2)]
  note b = a [THEN conjunct2, THEN mp, OF convert_literals(3)]
  from b have "py_count convert_replace (py_replace convert_search convert_replace sample_calls)
      = 2"
    by (simp add: sample_calls_counts)
  with convert_literals sample_calls_counts a [THEN conjunct1] show ?thesis
    by (intro conjI)
qed

text \<open>
  The claim C6 as written asks only that \<open>r\<close> does not contain \<open>s\<close>. Replacing \<open>ab\<close> by
  \<open>a\<close> in \<open>aabb\<close> gives \<open>aab\<close>, which contains \<open>ab\<close> again, and the count of \<open>a\<close> stays 2
  where the claim has it grow by the one occurrence of \<open>ab\<close>. Replacing \<open>b\<close> by \<open>aa\<close> in
  \<open>aba\<close>, two literals that do not overlap, gives \<open>aaaa\<close>: the count of \<open>aa\<close> goes from 0
  to 2 with one occurrence replaced, since \<open>aa\<close> has a border.
\<close>

theorem substitution_replaces_all_counterexample:
  "str ''ab'' \<noteq> [] \<and> \<not> py_in (str ''ab'') (str ''a'') \<and>
   py_replace (str ''ab'') (str ''a'') (str ''aabb'') = str ''aab'' \<and>
   py_in (str ''ab'') (py_replace (str ''ab'') (str ''a'') (str ''aabb'')) \<and>
   py_count (str ''a'') (py_replace (str ''ab'') (str ''a'') (str ''aabb'')) \<noteq>
     py_count (str ''a'') (str ''aabb'') + py_count (str ''ab'') (str ''aabb'') \<and>
   \<not> py_in (str ''b'') (str ''aa'') \<and> \<not> overlaps (str ''b'') (str ''aa'') \<and>
   py_replace (str ''b'') (str ''aa'') (str ''aba'') = str ''aaaa'' \<and>
   py_count (str ''aa'') (py_replace (str ''b'') (str ''aa'') (str ''aba'')) \<noteq>
     py_count (str ''aa'') (str ''aba'') + py_count (str ''b'') (str ''aba'')"
  by (simp add: py_replace_def overlaps_def upt_rec)

end
